theory Spec2Isabelle
  imports Complex_Main "HOL-Library.Log_Nat"
begin

section \<open>JavaScript values\<close>

text \<open>
  The values the services inspect dynamically (a candidate schema, a declared type) are
  JSON-like JavaScript values. A number inside such a value is an integer (the services
  only test it, they never compute with it); an object is the list of its own enumerable
  properties, read through \<open>object_keys\<close> and \<open>get_prop\<close>.
  A string is the sequence of the bytes of its UTF-8 encoding: an ASCII character is one
  byte, any other character two to four bytes that are all above 0x7F.
\<close>

datatype jsval =
    JUndefined
  | JNull
  | JBool bool
  | JNum int
  | JStr string
  | JArr "jsval list"
  | JObj "(string \<times> jsval) list"

text \<open>
  What a \<open>throw\<close> carries: an \<open>Error\<close> or a \<open>TypeError\<close> (both are instances of
  \<open>Error\<close> and have a message), or any other thrown value.
\<close>

datatype exn = Error string | TypeError string | Thrown jsval

fun truthy :: "jsval \<Rightarrow> bool" where
  "truthy JUndefined = False"
| "truthy JNull = False"
| "truthy (JBool b) = b"
| "truthy (JNum n) = (n \<noteq> 0)"
| "truthy (JStr s) = (s \<noteq> [])"
| "truthy (JArr xs) = True"
| "truthy (JObj fs) = True"

fun typeof :: "jsval \<Rightarrow> string" where
  "typeof JUndefined = ''undefined''"
| "typeof JNull = ''object''"
| "typeof (JBool b) = ''boolean''"
| "typeof (JNum n) = ''number''"
| "typeof (JStr s) = ''string''"
| "typeof (JArr xs) = ''object''"
| "typeof (JObj fs) = ''object''"

fun isArray :: "jsval \<Rightarrow> bool" where
  "isArray (JArr xs) = True"
| "isArray v = False"

text \<open>\<open>Object.keys\<close>: the own property names, each once. It throws on \<open>null\<close> and
  \<open>undefined\<close>; the index keys of arrays and strings are not modelled.\<close>

fun object_keys :: "jsval \<Rightarrow> exn + string list" where
  "object_keys (JObj fs) = Inr (remdups (map fst fs))"
| "object_keys JUndefined = Inl (TypeError ''Cannot convert undefined or null to object'')"
| "object_keys JNull = Inl (TypeError ''Cannot convert undefined or null to object'')"
| "object_keys v = Inr []"

text \<open>Property read \<open>o[k]\<close>: \<open>undefined\<close> for a missing property, a \<open>TypeError\<close> on
  \<open>null\<close> and \<open>undefined\<close>.\<close>

fun get_prop :: "jsval \<Rightarrow> string \<Rightarrow> exn + jsval" where
  "get_prop (JObj fs) k = Inr (case map_of fs k of None \<Rightarrow> JUndefined | Some v \<Rightarrow> v)"
| "get_prop JUndefined k = Inl (TypeError ''Cannot read properties of undefined'')"
| "get_prop JNull k = Inl (TypeError ''Cannot read properties of null'')"
| "get_prop v k = Inr JUndefined"

subsection \<open>String methods\<close>

definition toLowerChar :: "char \<Rightarrow> char" where
  "toLowerChar c =
     (case map_of (zip ''ABCDEFGHIJKLMNOPQRSTUVWXYZ'' ''abcdefghijklmnopqrstuvwxyz'') c of
        None \<Rightarrow> c
      | Some l \<Rightarrow> l)"

fun startsWith :: "string \<Rightarrow> string \<Rightarrow> bool" where
  "startsWith s [] = True"
| "startsWith [] (p # ps) = False"
| "startsWith (c # cs) (p # ps) = (c = p \<and> startsWith cs ps)"

text \<open>
  \<open>s.toLowerCase()\<close>. Besides the ASCII capitals, two characters beyond ASCII have a
  lower case with an ASCII letter in it: the Kelvin sign U+212A (bytes E2 84 AA) becomes
  \<open>k\<close>, and the dotted capital I U+0130 (bytes C4 B0) becomes \<open>i\<close> followed by the
  combining dot U+0307 (bytes CC 87). Every other character beyond ASCII has a lower case
  beyond ASCII; it is kept as it is, which leaves the ASCII letters of the result and their
  places exact.
\<close>

definition kelvin_sign :: string where
  "kelvin_sign = [CHR 0xE2, CHR 0x84, CHR 0xAA]"

definition dotted_capital_I :: string where
  "dotted_capital_I = [CHR 0xC4, CHR 0xB0]"

fun toLowerCase :: "string \<Rightarrow> string" where
  "toLowerCase [] = []"
| "toLowerCase (c # cs) =
     (if startsWith (c # cs) kelvin_sign then CHR ''k'' # toLowerCase (drop 2 cs)
      else if startsWith (c # cs) dotted_capital_I then
        CHR ''i'' # CHR 0xCC # CHR 0x87 # toLowerCase (drop 1 cs)
      else toLowerChar c # toLowerCase cs)"

text \<open>The method call \<open>v.toLowerCase()\<close> on a dynamically typed value: only strings have
  the method.\<close>

fun call_toLowerCase :: "jsval \<Rightarrow> exn + string" where
  "call_toLowerCase (JStr s) = Inr (toLowerCase s)"
| "call_toLowerCase v = Inl (TypeError ''toLowerCase is not a function'')"

text \<open>\<open>s.includes(sub)\<close>: \<open>sub\<close> occurs in \<open>s\<close> as a contiguous substring.\<close>

fun str_includes :: "string \<Rightarrow> string \<Rightarrow> bool" where
  "str_includes [] sub = (sub = [])"
| "str_includes (c # cs) sub = (startsWith (c # cs) sub \<or> str_includes cs sub)"

text \<open>
  \<open>s.trim()\<close> strips white space and line terminators at both ends: U+0009 to U+000D,
  U+0020, U+00A0, U+1680, U+2000 to U+200A, U+2028, U+2029, U+202F, U+205F, U+3000 and
  U+FEFF, here in UTF-8.
\<close>

definition whiteSpace :: "string list" where
  "whiteSpace =
     [[CHR 0x09], [CHR 0x0A], [CHR 0x0B], [CHR 0x0C], [CHR 0x0D], [CHR 0x20],
      [CHR 0xC2, CHR 0xA0], [CHR 0xE1, CHR 0x9A, CHR 0x80],
      [CHR 0xE2, CHR 0x80, CHR 0x80], [CHR 0xE2, CHR 0x80, CHR 0x81],
      [CHR 0xE2, CHR 0x80, CHR 0x82], [CHR 0xE2, CHR 0x80, CHR 0x83],
      [CHR 0xE2, CHR 0x80, CHR 0x84], [CHR 0xE2, CHR 0x80, CHR 0x85],
      [CHR 0xE2, CHR 0x80, CHR 0x86], [CHR 0xE2, CHR 0x80, CHR 0x87],
      [CHR 0xE2, CHR 0x80, CHR 0x88], [CHR 0xE2, CHR 0x80, CHR 0x89],
      [CHR 0xE2, CHR 0x80, CHR 0x8A], [CHR 0xE2, CHR 0x80, CHR 0xA8],
      [CHR 0xE2, CHR 0x80, CHR 0xA9], [CHR 0xE2, CHR 0x80, CHR 0xAF],
      [CHR 0xE2, CHR 0x81, CHR 0x9F], [CHR 0xE3, CHR 0x80, CHR 0x80],
      [CHR 0xEF, CHR 0xBB, CHR 0xBF]]"

text \<open>Removes, as long as there is one, a leading occurrence of one of the given non-empty
  words.\<close>

function stripLeading :: "string list \<Rightarrow> string \<Rightarrow> string" where
  "stripLeading ws s =
     (case find (\<lambda>w. w \<noteq> [] \<and> startsWith s w) ws of
        None \<Rightarrow> s
      | Some w \<Rightarrow> stripLeading ws (drop (length w) s))"
  by pat_completeness auto
termination
proof (relation "measure (\<lambda>(ws, s). length s)")
  show "wf (measure (\<lambda>(ws, s). length s))" by simp
next
  fix ws :: "string list" and s w :: string
  assume "find (\<lambda>w. w \<noteq> [] \<and> startsWith s w) ws = Some w"
  then have "w \<noteq> [] \<and> startsWith s w"
    by (auto simp: find_Some_iff)
  then have "s \<noteq> []" by (cases w; cases s) auto
  with \<open>w \<noteq> [] \<and> startsWith s w\<close>
  show "((ws, drop (length w) s), (ws, s)) \<in> measure (\<lambda>(ws, s). length s)"
    by simp
qed

declare stripLeading.simps [simp del]

definition trim :: "string \<Rightarrow> string" where
  "trim s = rev (stripLeading (map rev whiteSpace) (rev (stripLeading whiteSpace s)))"

text \<open>\<open>Array.prototype.every\<close> with a callback that may throw: stops at the first
  \<open>false\<close> and at the first exception.\<close>

fun every :: "('a \<Rightarrow> exn + bool) \<Rightarrow> 'a list \<Rightarrow> exn + bool" where
  "every p [] = Inr True"
| "every p (x # xs) =
     (case p x of
        Inl e \<Rightarrow> Inl e
      | Inr b \<Rightarrow> if b then every p xs else Inr False)"

section \<open>AIService.validateSchema\<close>

definition validTypes :: "string list" where
  "validTypes = [''string'', ''number'', ''boolean'', ''date'', ''email'', ''phone'', ''url'']"

definition validateSchema :: "jsval \<Rightarrow> exn + bool" where
  "validateSchema schema =
     (if \<not> truthy schema \<or> typeof schema \<noteq> ''object'' \<or> isArray schema then Inr False
      else
        case object_keys schema of
          Inl e \<Rightarrow> Inl e
        | Inr fields \<Rightarrow>
            if length fields = 0 then Inr False
            else
              every
                (\<lambda>field.
                   case get_prop schema field of
                     Inl e \<Rightarrow> Inl e
                   | Inr type \<Rightarrow>
                       if typeof type = ''string'' then
                         (case call_toLowerCase type of
                            Inl e \<Rightarrow> Inl e
                          | Inr lowered \<Rightarrow> Inr (lowered \<in> set validTypes))
                       else Inr False)
                fields)"

subsection \<open>The validator as the specification words it\<close>

text \<open>Two tags are equal case-insensitively when they have the same length and agree
  letter by letter up to case.\<close>

definition same_ignoring_case :: "string \<Rightarrow> string \<Rightarrow> bool" where
  "same_ignoring_case a b = list_all2 (\<lambda>x y. toLowerChar x = toLowerChar y) a b"

definition allowed_tags :: "string set" where
  "allowed_tags =
     {''string'', ''number'', ''boolean'', ''date'', ''email'', ''phone'', ''url''}"

definition allowed_type :: "jsval \<Rightarrow> bool" where
  "allowed_type t = (\<exists>s tag. t = JStr s \<and> tag \<in> allowed_tags \<and> same_ignoring_case s tag)"

text \<open>A well-formed schema: a key-value object (not an array, not a primitive, not
  \<open>null\<close>) with at least one field, every field declaring an allowed type.\<close>

definition schema_well_formed :: "jsval \<Rightarrow> bool" where
  "schema_well_formed v =
     (\<exists>fs. v = JObj fs \<and> fs \<noteq> [] \<and> (\<forall>k t. map_of fs k = Some t \<longrightarrow> allowed_type t))"

text \<open>The letters the allowed tags are written with.\<close>

definition tag_letters :: "char set" where
  "tag_letters = set ''abdeghilmnoprstu''"

section \<open>Turn results\<close>

text \<open>
  A gateway turn yields JSON text. The services only ever distinguish a plain string from
  an object, and inside an object the shape of \<open>form_data\<close>: an array of
  \<open>{key, value}\<close> records (the response schema declared in \<open>createChat\<close>: both are
  strings), a key-value object (the legacy shape), or anything else. A field's \<open>key\<close> or
  \<open>value\<close> may be missing (\<open>None\<close>); \<open>ai_message\<close> may be missing as well.
  An object of form data is the finite map of its own properties, from names to strings;
  the order of the properties is not kept. The objects are created by object literals, so
  their prototype is \<open>Object.prototype\<close>.
\<close>

type_synonym obj = "string \<rightharpoonup> string"

text \<open>
  The assignment \<open>o[k] = v\<close> of a string. It creates or overwrites the own property
  \<open>k\<close>, with one exception: when \<open>k\<close> is \<open>__proto__\<close> and the object has no own
  property of that name, the assignment reaches the setter inherited from
  \<open>Object.prototype\<close>, which ignores a value that is neither an object nor \<open>null\<close>,
  and nothing is stored.
\<close>

definition obj_set :: "obj \<Rightarrow> string \<Rightarrow> string \<Rightarrow> obj" where
  "obj_set ob k v = (if k = ''__proto__'' \<and> ob ''__proto__'' = None then ob else ob(k \<mapsto> v))"

text \<open>\<open>Object.assign(target, src)\<close> assigns every own property of \<open>src\<close> to
  \<open>target\<close> in that way.\<close>

definition obj_assign :: "obj \<Rightarrow> obj \<Rightarrow> obj" where
  "obj_assign target src =
     (\<lambda>k. if k = ''__proto__'' \<and> target ''__proto__'' = None then None
          else (target ++ src) k)"

record field =
  key :: "string option"
  val :: "string option"

datatype form_data =
    NoFormData
  | FieldSeq "field list"
  | LegacyObject obj

datatype turn_result =
    PlainText string
  | Structured "string option" form_data

text \<open>Truthiness of a possibly missing string: \<open>undefined\<close> and \<open>""\<close> are falsy.\<close>

fun truthy_str :: "string option \<Rightarrow> bool" where
  "truthy_str None = False"
| "truthy_str (Some s) = (s \<noteq> [])"

section \<open>AIService.sendMessage\<close>

text \<open>The keys whose values are taken for URLs (lines 150-152).\<close>

definition isUrlKey :: "string \<Rightarrow> bool" where
  "isUrlKey k =
     (let fieldLower = toLowerCase k
      in str_includes fieldLower ''url'' \<or> str_includes fieldLower ''profile'' \<or>
         str_includes fieldLower ''link'' \<or> str_includes fieldLower ''website'')"

text \<open>The body of the \<open>forEach\<close> callback (lines 149-157); the source updates the
  field in place.\<close>

definition autoFormatField :: "field \<Rightarrow> field" where
  "autoFormatField f =
     (if truthy_str (key f) \<and> truthy_str (val f) then
        (if isUrlKey (the (key f)) then
           (if \<not> startsWith (the (val f)) ''http'' then
              f\<lparr>val := Some (''https://'' @ the (val f))\<rparr>
            else f)
         else f)
      else f)"

fun autoFormat :: "turn_result \<Rightarrow> turn_result" where
  "autoFormat (Structured m (FieldSeq fs)) = Structured m (FieldSeq (map autoFormatField fs))"
| "autoFormat r = r"

text \<open>
  The remote chat is outside the program: \<open>chat.sendMessage\<close> either throws or answers
  with a response whose \<open>text\<close> may be missing. \<open>JSON.parse\<close> is a parameter as well:
  \<open>None\<close> is its \<open>SyntaxError\<close>. Every turn that reaches the remote chat is appended
  to a log of (chat handle, message sent).
\<close>

datatype gateway_reply = Throws exn | Replies "string option"

type_synonym gateway = "nat \<Rightarrow> string \<Rightarrow> gateway_reply"
type_synonym json_parse = "string \<Rightarrow> turn_result option"
type_synonym turn_log = "(nat \<times> string) list"

definition apology :: string where
  "apology = ''I'' @ [CHR 0x27] @ ''m so'' @ ''rry, I couldn'' @ [CHR 0x27] @
     ''t generate a response. Please try again.''"

text \<open>The outer \<open>catch\<close> (lines 169-181): every exception leaves as one of three
  user-facing errors.\<close>

fun catch_handler :: "exn \<Rightarrow> exn" where
  "catch_handler (Thrown v) = Error ''Failed to get AI response. Please try again.''"
| "catch_handler e =
     (let message = (case e of Error m \<Rightarrow> m | TypeError m \<Rightarrow> m | Thrown v \<Rightarrow> [])
      in if str_includes message ''quota'' then
           Error ''AI service quota exceeded. Please try again later.''
         else if str_includes message ''safety'' then
           Error ''Message flagged by safety filters. Please rephrase your message.''
         else Error ''Failed to get AI response. Please try again.'')"

text \<open>The \<open>try\<close> block (lines 130-168).\<close>

definition try_sendMessage ::
  "json_parse \<Rightarrow> gateway \<Rightarrow> nat option \<Rightarrow> string option \<Rightarrow> turn_log
     \<Rightarrow> (exn + turn_result) \<times> turn_log" where
  "try_sendMessage parse gw chat message hist =
     (if chat = None \<or> \<not> truthy_str message then
        (Inl (Error ''Chat instance and message are required''), hist)
      else
        let sent = trim (the message); hist' = hist @ [(the chat, sent)]
        in case gw (the chat) sent of
             Throws e \<Rightarrow> (Inl e, hist')
           | Replies responseText \<Rightarrow>
               if \<not> truthy_str responseText then
                 (Inl (Error ''No response received from AI''), hist')
               else
                 (case parse (the responseText) of
                    None \<Rightarrow>
                      (Inr (Structured
                              (Some (if truthy_str responseText then the responseText
                                     else apology))
                              (FieldSeq [])), hist')
                  | Some parsedResponse \<Rightarrow> (Inr (autoFormat parsedResponse), hist')))"

definition ai_sendMessage ::
  "json_parse \<Rightarrow> gateway \<Rightarrow> nat option \<Rightarrow> string option \<Rightarrow> turn_log
     \<Rightarrow> (exn + turn_result) \<times> turn_log" where
  "ai_sendMessage parse gw chat message hist =
     (case try_sendMessage parse gw chat message hist of
        (Inl error, hist') \<Rightarrow> (Inl (catch_handler error), hist')
      | (Inr r, hist') \<Rightarrow> (Inr r, hist'))"

section \<open>SessionService\<close>

subsection \<open>The session store: a JavaScript Map\<close>

text \<open>A \<open>Map\<close> keeps its entries in insertion order, one per key: \<open>set\<close> replaces the
  value of a present key in place and appends a new key.\<close>

fun map_set :: "('k \<times> 'v) list \<Rightarrow> 'k \<Rightarrow> 'v \<Rightarrow> ('k \<times> 'v) list" where
  "map_set [] k v = [(k, v)]"
| "map_set (e # m) k v = (if fst e = k then (k, v) # m else e # map_set m k v)"

definition map_get :: "('k \<times> 'v) list \<Rightarrow> 'k \<Rightarrow> 'v option" where
  "map_get m k = map_of m k"

definition map_has :: "('k \<times> 'v) list \<Rightarrow> 'k \<Rightarrow> bool" where
  "map_has m k = list_ex (\<lambda>e. fst e = k) m"

definition map_delete :: "('k \<times> 'v) list \<Rightarrow> 'k \<Rightarrow> ('k \<times> 'v) list" where
  "map_delete m k = filter (\<lambda>e. fst e \<noteq> k) m"

subsection \<open>Sessions and the service state\<close>

text \<open>
  Objects that are shared by reference live in a heap: a session holds the address of its
  \<open>accumulatedFormData\<close> object, and whoever receives that address reads and writes the
  same object. \<open>next_free\<close> is the next address an object literal is allocated at. Time
  stamps are milliseconds since the epoch. \<open>turns\<close> is the log of turns sent to the
  remote chat.
\<close>

type_synonym addr = nat

record session =
  id_session :: string
  schema :: jsval
  chat :: nat
  createdAt :: int
  accumulatedFormData :: addr

record state =
  sessions :: "(string \<times> session) list"
  heap :: "addr \<Rightarrow> obj"
  next_free :: addr
  turns :: turn_log

text \<open>The constructor: an empty Map.\<close>

definition new_SessionService :: state where
  "new_SessionService = \<lparr>sessions = [], heap = (\<lambda>a. Map.empty), next_free = 0, turns = []\<rparr>"

text \<open>What a caller that holds the address of an object can do to it: \<open>o[k] = v\<close>.\<close>

definition set_property :: "state \<Rightarrow> addr \<Rightarrow> string \<Rightarrow> string \<Rightarrow> state" where
  "set_property st a k v = st\<lparr>heap := (heap st)(a := obj_set (heap st a) k v)\<rparr>"

subsection \<open>createSession\<close>

text \<open>\<open>uuidv4()\<close>, \<open>createChat(schema)\<close> and \<open>new Date()\<close> are taken as arguments.\<close>

definition createSession ::
  "string \<Rightarrow> nat \<Rightarrow> int \<Rightarrow> jsval \<Rightarrow> state \<Rightarrow> (exn + string) \<times> state" where
  "createSession uuid newChat now schema' st =
     (case validateSchema schema' of
        Inl e \<Rightarrow> (Inl e, st)
      | Inr valid \<Rightarrow>
          if \<not> valid then (Inl (Error ''Invalid schema format''), st)
          else
            let sessionId = uuid; a = next_free st
            in (Inr sessionId,
                st\<lparr>sessions :=
                     map_set (sessions st) sessionId
                       \<lparr>id_session = sessionId, schema = schema', chat = newChat,
                        createdAt = now, accumulatedFormData = a\<rparr>,
                   heap := (heap st)(a := Map.empty),
                   next_free := a + 1\<rparr>))"

subsection \<open>sendMessage\<close>

text \<open>The \<open>forEach\<close> over \<open>response.form_data\<close> (lines 54-58), on the accumulated
  object.\<close>

fun accumulate :: "obj \<Rightarrow> field list \<Rightarrow> obj" where
  "accumulate acc [] = acc"
| "accumulate acc (f # fs) =
     accumulate
       (if truthy_str (key f) \<and> truthy_str (val f) then obj_set acc (the (key f)) (the (val f))
        else acc)
       fs"

text \<open>What \<open>sendMessage\<close> resolves to: the raw response itself, or a new object
  \<open>{ai_message, form_data}\<close> whose \<open>form_data\<close> is a newly allocated object.\<close>

datatype send_result =
    Raw turn_result
  | Accumulated "string option" addr

text \<open>Lines 46-85: what happens to the response once the gateway call has returned.\<close>

definition accumulator :: "state \<Rightarrow> session \<Rightarrow> turn_result \<Rightarrow> send_result \<times> state" where
  "accumulator st session response =
     (case response of
        PlainText s \<Rightarrow> (Raw response, st)
      | Structured ai_message fd \<Rightarrow>
          (case fd of
             FieldSeq fs \<Rightarrow>
               let a = accumulatedFormData session;
                   h = (heap st)(a := accumulate (heap st a) fs);
                   c = next_free st
               in (Accumulated ai_message c, st\<lparr>heap := h(c := h a), next_free := c + 1\<rparr>)
           | LegacyObject src \<Rightarrow>
               let a = accumulatedFormData session;
                   h = (heap st)(a := obj_assign (heap st a) src);
                   c = next_free st
               in (Accumulated ai_message c, st\<lparr>heap := h(c := h a), next_free := c + 1\<rparr>)
           | NoFormData \<Rightarrow> (Raw response, st)))"

text \<open>The whole call, run without interleaving: the lookup, the gateway turn, the
  accumulator.\<close>

definition sendMessage ::
  "json_parse \<Rightarrow> gateway \<Rightarrow> state \<Rightarrow> string \<Rightarrow> string option
     \<Rightarrow> (exn + send_result) \<times> state" where
  "sendMessage parse gw st sessionId message =
     (case map_get (sessions st) sessionId of
        None \<Rightarrow> (Inl (Error ''Session not found''), st)
      | Some session \<Rightarrow>
          (case ai_sendMessage parse gw (Some (chat session)) message (turns st) of
             (Inl e, hist) \<Rightarrow> (Inl e, st\<lparr>turns := hist\<rparr>)
           | (Inr response, hist) \<Rightarrow>
               (case accumulator (st\<lparr>turns := hist\<rparr>) session response of
                  (r, st') \<Rightarrow> (Inr r, st'))))"

subsection \<open>The accessors\<close>

definition deleteSession :: "state \<Rightarrow> string \<Rightarrow> bool \<times> state" where
  "deleteSession st sessionId =
     (map_has (sessions st) sessionId, st\<lparr>sessions := map_delete (sessions st) sessionId\<rparr>)"

definition hasSession :: "state \<Rightarrow> string \<Rightarrow> bool" where
  "hasSession st sessionId = map_has (sessions st) sessionId"

record session_info =
  info_id :: string
  info_schema :: jsval
  info_createdAt :: int
  info_accumulatedFormData :: addr

definition getSessionInfo :: "state \<Rightarrow> string \<Rightarrow> session_info option" where
  "getSessionInfo st sessionId =
     (case map_get (sessions st) sessionId of
        Some session \<Rightarrow>
          Some \<lparr>info_id = id_session session, info_schema = schema session,
                info_createdAt = createdAt session,
                info_accumulatedFormData = accumulatedFormData session\<rparr>
      | None \<Rightarrow> None)"

definition getSessionCount :: "state \<Rightarrow> nat" where
  "getSessionCount st = length (sessions st)"

definition getAllSessionIds :: "state \<Rightarrow> string list" where
  "getAllSessionIds st = map fst (sessions st)"

subsection \<open>Numbers\<close>

text \<open>
  A JavaScript number is an IEEE 754 double: a finite value, an infinity or NaN. Zero has
  one sign here. \<open>to_double\<close> rounds a real number to the nearest double, ties to the
  even significand: a double is a multiple of \<open>2 powi (e - 52)\<close> in the binade of
  exponent \<open>e\<close> (\<open>e\<close> at least -1022, where the subnormal numbers use the same
  spacing), and a result of magnitude \<open>2 powi 1024\<close> or more is an infinity.
\<close>

datatype number = Finite real | PosInfinity | NegInfinity | NaN

text \<open>The exponent \<open>e\<close> with \<open>2 powi e \<le> q < 2 powi (e + 1)\<close>, for positive \<open>q\<close>.\<close>

definition expo :: "real \<Rightarrow> int" where
  "expo q = (if 1 \<le> q then bitlen \<lfloor>q\<rfloor> - 1 else - bitlen (\<lceil>1 / q\<rceil> - 1))"

definition round_half_even :: "real \<Rightarrow> int" where
  "round_half_even r =
     (let f = \<lfloor>r\<rfloor>; d = r - of_int f
      in if d < 1 / 2 then f else if 1 / 2 < d then f + 1 else if even f then f else f + 1)"

definition to_double :: "real \<Rightarrow> number" where
  "to_double q =
     (if q = 0 then Finite 0
      else
        let a = \<bar>q\<bar>;
            e = max (expo a) (- 1022);
            u = 2 powi (e - 52);
            r = of_int (round_half_even (a / u)) * u
        in if 2 powi 1024 \<le> r then (if 0 < q then PosInfinity else NegInfinity)
           else Finite (sgn q * r))"

text \<open>The difference of two valid Dates: their time values are integers (milliseconds) that
  doubles hold exactly, and the difference is rounded.\<close>

definition date_minus :: "int \<Rightarrow> int \<Rightarrow> number" where
  "date_minus t1 t2 = to_double (of_int t1 - of_int t2)"

text \<open>Division of a number by a positive finite double \<open>d\<close>.\<close>

fun divide_by :: "number \<Rightarrow> real \<Rightarrow> number" where
  "divide_by (Finite a) d = to_double (a / d)"
| "divide_by PosInfinity d = PosInfinity"
| "divide_by NegInfinity d = NegInfinity"
| "divide_by NaN d = NaN"

text \<open>The comparison \<open>x > y\<close>.\<close>

fun num_gt :: "number \<Rightarrow> number \<Rightarrow> bool" where
  "num_gt NaN y = False"
| "num_gt x NaN = False"
| "num_gt (Finite a) (Finite b) = (b < a)"
| "num_gt PosInfinity PosInfinity = False"
| "num_gt PosInfinity y = True"
| "num_gt x PosInfinity = False"
| "num_gt NegInfinity y = False"
| "num_gt x NegInfinity = True"

subsection \<open>cleanupExpiredSessions\<close>

text \<open>Line 139: \<open>(now - session.createdAt) / (1000 * 60)\<close>; the product is the double
  60000.\<close>

definition ageMinutes :: "int \<Rightarrow> session \<Rightarrow> number" where
  "ageMinutes now session = divide_by (date_minus now (createdAt session)) (1000 * 60)"

text \<open>The parameter defaults to 60 when the caller passes none.\<close>

definition cleanupExpiredSessions :: "int \<Rightarrow> number option \<Rightarrow> state \<Rightarrow> nat \<times> state" where
  "cleanupExpiredSessions now arg st =
     (let maxAgeMinutes = (case arg of None \<Rightarrow> Finite 60 | Some m \<Rightarrow> m);
          expiredSessions =
            map fst (filter (\<lambda>e. num_gt (ageMinutes now (snd e)) maxAgeMinutes) (sessions st))
      in (length expiredSessions,
          st\<lparr>sessions := fold (\<lambda>sessionId m. map_delete m sessionId) expiredSessions (sessions st)\<rparr>))"

section \<open>The properties, in the words of the specification\<close>

text \<open>A record takes part in the merge when its key and its value are both present and
  non-empty.\<close>

definition present_nonempty :: "field \<Rightarrow> bool" where
  "present_nonempty f =
     (case (key f, val f) of
        (Some k, Some v) \<Rightarrow> k \<noteq> [] \<and> v \<noteq> []
      | _ \<Rightarrow> False)"

text \<open>The value a sequence assigns to a key: that of the last record for the key that takes
  part, if there is one.\<close>

definition latest_for :: "field list \<Rightarrow> string \<Rightarrow> string option" where
  "latest_for fs k =
     (let hits = filter (\<lambda>f. present_nonempty f \<and> key f = Some k) fs
      in if hits = [] then None else val (last hits))"

definition merged :: "obj \<Rightarrow> field list \<Rightarrow> obj" where
  "merged acc fs = (\<lambda>k. case latest_for fs k of None \<Rightarrow> acc k | Some v \<Rightarrow> Some v)"



text \<open>A session is older than a threshold given in minutes when the milliseconds between its
  creation and now exceed the threshold, in exact arithmetic.\<close>

definition older_than :: "int \<Rightarrow> real \<Rightarrow> session \<Rightarrow> bool" where
  "older_than now minutes session = (of_int (now - createdAt session) > minutes * 60000)"

text \<open>Consistency of the store: every record is stored under its own identifier, the count
  is the length of the identifier list, and \<open>hasSession\<close> agrees with that list.\<close>

definition store_consistent :: "state \<Rightarrow> bool" where
  "store_consistent st =
     ((\<forall>e \<in> set (sessions st). id_session (snd e) = fst e) \<and>
      getSessionCount st = length (getAllSessionIds st) \<and>
      (\<forall>i. hasSession st i = (i \<in> set (getAllSessionIds st))))"

text \<open>Well-formedness of the representation: a Map has one entry per key, and every
  session's form data object has been allocated.\<close>

definition unique_keys :: "state \<Rightarrow> bool" where
  "unique_keys st = distinct (map fst (sessions st))"

definition allocated :: "state \<Rightarrow> bool" where
  "allocated st = (\<forall>e \<in> set (sessions st). accumulatedFormData (snd e) < next_free st)"

section \<open>Worked inputs\<close>

text \<open>A store with one session whose accumulated form data is \<open>{a: "1"}\<close>, a
  gateway that always answers, parsers that read fixed payloads, a store with one
  session created 90 minutes and one created 10 minutes before the time 6000000, and the
  double that the literal \<open>0.3\<close> denotes.\<close>

definition example_session :: session where
  "example_session =
     \<lparr>id_session = ''s1'', schema = JObj [(''a'', JStr ''string'')], chat = 7, createdAt = 0,
      accumulatedFormData = 0\<rparr>"

definition example_state :: state where
  "example_state =
     \<lparr>sessions = [(''s1'', example_session)],
      heap = (\<lambda>a. Map.empty)(0 := [''a'' \<mapsto> ''1'']),
      next_free = 1, turns = []\<rparr>"

definition example_fields :: "field list" where
  "example_fields =
     [\<lparr>key = Some ''a'', val = Some ''2''\<rparr>, \<lparr>key = Some ''b'', val = Some ''3''\<rparr>]"

definition example_gateway :: gateway where
  "example_gateway = (\<lambda>c m. Replies (Some ''payload''))"

definition parse_fields :: json_parse where
  "parse_fields = (\<lambda>t. Some (Structured (Some ''ok'') (FieldSeq example_fields)))"

definition parse_text :: json_parse where
  "parse_text = (\<lambda>t. Some (PlainText ''hello''))"

definition parse_url :: json_parse where
  "parse_url = (\<lambda>t. Some (Structured (Some ''ok'')
       (FieldSeq [\<lparr>key = Some ''profileUrl'', val = Some ''linkedin.com/x''\<rparr>,
                  \<lparr>key = Some ''name'', val = Some ''Ann''\<rparr>])))"

definition sweep_state :: state where
  "sweep_state =
     \<lparr>sessions =
        [(''old'', \<lparr>id_session = ''old'', schema = JObj [(''a'', JStr ''string'')], chat = 1,
                    createdAt = 600000, accumulatedFormData = 0\<rparr>),
         (''new'', \<lparr>id_session = ''new'', schema = JObj [(''a'', JStr ''string'')], chat = 2,
                    createdAt = 5400000, accumulatedFormData = 1\<rparr>)],
      heap = (\<lambda>a. Map.empty), next_free = 2, turns = []\<rparr>"

definition proto_fields :: "field list" where
  "proto_fields = [\<lparr>key = Some ''__proto__'', val = Some ''x''\<rparr>]"

definition parse_proto :: json_parse where
  "parse_proto = (\<lambda>t. Some (Structured (Some ''ok'') (FieldSeq proto_fields)))"

definition double_03 :: real where
  "double_03 = 5404319552844595 / 18014398509481984"

definition cutoff_session :: session where
  "cutoff_session =
     \<lparr>id_session = ''s'', schema = JObj [(''a'', JStr ''string'')], chat = 1, createdAt = 0,
      accumulatedFormData = 0\<rparr>"

definition cutoff_state :: state where
  "cutoff_state =
     \<lparr>sessions = [(''s'', cutoff_session)], heap = (\<lambda>a. Map.empty), next_free = 1,
      turns = []\<rparr>"

section \<open>Auxiliary lemmas\<close>

lemmas ex_defs = example_session_def example_state_def example_fields_def example_gateway_def
  parse_fields_def parse_text_def parse_url_def sweep_state_def proto_fields_def parse_proto_def
  cutoff_session_def cutoff_state_def

subsection \<open>Strings and the schema validator\<close>

lemma present_nonempty_iff:
  "present_nonempty f \<longleftrightarrow> truthy_str (key f) \<and> truthy_str (val f)"
  by (cases "key f"; cases "val f") (simp_all add: present_nonempty_def)

lemma every_pure:
  "(\<And>x. x \<in> set xs \<Longrightarrow> p x = Inr (q x)) \<Longrightarrow> every p xs = Inr (list_all q xs)"
  by (induction xs) simp_all

lemma allowed_tags_validTypes: "allowed_tags = set validTypes"
  by (simp add: allowed_tags_def validTypes_def)

lemma same_ignoring_case_iff:
  "same_ignoring_case a b \<longleftrightarrow> map toLowerChar a = map toLowerChar b"
proof -
  have "list_all2 (\<lambda>x y. toLowerChar x = toLowerChar y) a b
        \<longleftrightarrow> list_all2 (=) (map toLowerChar a) (map toLowerChar b)"
    by (simp add: list_all2_map1 list_all2_map2)
  then show ?thesis
    by (simp add: same_ignoring_case_def list_all2_eq)
qed

text \<open>On a result made of the letters of the allowed tags, the lower-casing of strings and
  the lower-casing of every byte agree.\<close>

lemma toLowerChar_tag_letter:
  assumes "toLowerChar c \<in> tag_letters"
  shows "c \<noteq> CHR 0xE2 \<and> c \<noteq> CHR 0xC4"
  using assms by (auto simp: tag_letters_def toLowerChar_def)

lemma toLowerCase_tag_letters:
  assumes "set t \<subseteq> tag_letters"
  shows "toLowerCase s = t \<longleftrightarrow> map toLowerChar s = t"
  using assms
proof (induction s arbitrary: t)
  case Nil
  show ?case by auto
next
  case (Cons c cs)
  show ?case
  proof (cases t)
    case Nil
    then show ?thesis by (simp add: Let_def)
  next
    case (Cons x xs)
    with Cons.prems have x: "x \<in> tag_letters" and xs: "set xs \<subseteq> tag_letters" by auto
    show ?thesis
    proof (cases "c = CHR 0xE2 \<or> c = CHR 0xC4")
      case True
      then have "toLowerChar c \<notin> tag_letters" using toLowerChar_tag_letter by blast
      moreover have "CHR ''k'' \<notin> tag_letters" by (simp add: tag_letters_def)
      moreover have "CHR 0xCC \<notin> tag_letters" by (simp add: tag_letters_def)
      ultimately show ?thesis
        using x xs Cons by (auto simp: kelvin_sign_def dotted_capital_I_def)
    next
      case False
      then have "\<not> startsWith (c # cs) kelvin_sign" "\<not> startsWith (c # cs) dotted_capital_I"
        by (simp_all add: kelvin_sign_def dotted_capital_I_def)
      then show ?thesis
        using Cons.IH[OF xs] Cons by auto
    qed
  qed
qed

lemma validTypes_letters: "tag \<in> set validTypes \<Longrightarrow> set tag \<subseteq> tag_letters"
  by (auto simp: validTypes_def tag_letters_def)

lemma validTypes_lower: "tag \<in> set validTypes \<Longrightarrow> map toLowerChar tag = tag"
  by (auto simp: validTypes_def toLowerChar_def)

lemma allowed_type_iff:
  "allowed_type t \<longleftrightarrow> (\<exists>s. t = JStr s \<and> toLowerCase s \<in> set validTypes)"
proof -
  have "(\<exists>tag. tag \<in> set validTypes \<and> same_ignoring_case s tag)
          \<longleftrightarrow> toLowerCase s \<in> set validTypes" for s
  proof
    assume "\<exists>tag. tag \<in> set validTypes \<and> same_ignoring_case s tag"
    then obtain tag where t: "tag \<in> set validTypes" "map toLowerChar s = tag"
      by (auto simp: same_ignoring_case_iff validTypes_lower)
    then have "toLowerCase s = tag"
      using toLowerCase_tag_letters[OF validTypes_letters[OF t(1)]] by blast
    with t show "toLowerCase s \<in> set validTypes" by simp
  next
    assume a: "toLowerCase s \<in> set validTypes"
    then have "map toLowerChar s = toLowerCase s"
      using toLowerCase_tag_letters[OF validTypes_letters[OF a]] by blast
    then have "same_ignoring_case s (toLowerCase s)"
      using a by (simp add: same_ignoring_case_iff validTypes_lower)
    with a show "\<exists>tag. tag \<in> set validTypes \<and> same_ignoring_case s tag" by blast
  qed
  then show ?thesis
    unfolding allowed_type_def allowed_tags_validTypes by blast
qed

lemma field_check:
  "(if typeof t = ''string'' then
      (case call_toLowerCase t of Inl e \<Rightarrow> Inl e
       | Inr lowered \<Rightarrow> Inr (lowered \<in> set validTypes))
    else Inr False) = Inr (allowed_type t)"
  by (cases t) (simp_all add: allowed_type_iff)






lemma stripLeading_none:
  "find (\<lambda>w. w \<noteq> [] \<and> startsWith s w) ws = None \<Longrightarrow> stripLeading ws s = s"
  by (subst stripLeading.simps) simp

lemma stripLeading_some:
  "find (\<lambda>w. w \<noteq> [] \<and> startsWith s w) ws = Some w
     \<Longrightarrow> stripLeading ws s = stripLeading ws (drop (length w) s)"
  by (subst stripLeading.simps) simp

lemma trim_hi: "trim ''hi'' = ''hi''"
proof -
  have "stripLeading whiteSpace ''hi'' = ''hi''"
    by (rule stripLeading_none) (simp add: whiteSpace_def)
  moreover have "stripLeading (map rev whiteSpace) (rev ''hi'') = rev ''hi''"
    by (rule stripLeading_none) (simp add: whiteSpace_def)
  ultimately show ?thesis by (simp add: trim_def)
qed

lemma trim_spaces: "trim ''  '' = ''''"
proof -
  have "stripLeading whiteSpace ''  '' = stripLeading whiteSpace '' ''"
    by (subst stripLeading_some[where w = "'' ''"]) (simp_all add: whiteSpace_def)
  also have "\<dots> = stripLeading whiteSpace ''''"
    by (subst stripLeading_some[where w = "'' ''"]) (simp_all add: whiteSpace_def)
  also have "\<dots> = ''''"
    by (rule stripLeading_none) (simp add: whiteSpace_def)
  finally have a: "stripLeading whiteSpace ''  '' = ''''" .
  have b: "stripLeading (map rev whiteSpace) '''' = ''''"
    by (rule stripLeading_none) (simp add: whiteSpace_def)
  show ?thesis using a b by (simp add: trim_def)
qed

subsection \<open>The merge\<close>

lemma accumulate_append:
  "accumulate acc (fs @ gs) = accumulate (accumulate acc fs) gs"
  by (induction fs arbitrary: acc) simp_all

lemma latest_for_Nil: "latest_for [] k = None"
  by (simp add: latest_for_def)

lemma latest_for_snoc:
  "latest_for (fs @ [f]) k =
     (if present_nonempty f \<and> key f = Some k then val f else latest_for fs k)"
  by (simp add: latest_for_def)

lemma merged_Nil: "merged acc [] = acc"
  by (simp add: merged_def latest_for_Nil)

lemma merged_snoc:
  "merged acc (fs @ [f]) =
     (if present_nonempty f then (merged acc fs)(the (key f) \<mapsto> the (val f))
      else merged acc fs)"
proof (rule ext)
  fix k
  show "merged acc (fs @ [f]) k =
     (if present_nonempty f then (merged acc fs)(the (key f) \<mapsto> the (val f))
      else merged acc fs) k"
  proof (cases "present_nonempty f")
    case True
    then obtain k' v' where kv: "key f = Some k'" "val f = Some v'"
      by (cases "key f"; cases "val f") (auto simp: present_nonempty_def)
    with True show ?thesis by (simp add: merged_def latest_for_snoc)
  next
    case False
    then show ?thesis by (simp add: merged_def latest_for_snoc)
  qed
qed

lemma merged_keeps_some: "acc k \<noteq> None \<Longrightarrow> merged acc fs k \<noteq> None"
  by (simp add: merged_def split: option.splits)

text \<open>The fold agrees with the merge on every key but \<open>__proto__\<close>, which an object that
  does not have it never gets.\<close>

lemma accumulate_apply:
  "accumulate acc fs =
     (\<lambda>k. if k = ''__proto__'' \<and> acc ''__proto__'' = None then None else merged acc fs k)"
proof (induction fs rule: rev_induct)
  case Nil
  show ?case by (rule ext) (simp add: merged_Nil)
next
  case (snoc f fs)
  let ?A = "accumulate acc fs"
  have A: "?A k = (if k = ''__proto__'' \<and> acc ''__proto__'' = None then None
                   else merged acc fs k)" for k
    using snoc by simp
  have none: "?A ''__proto__'' = None \<longleftrightarrow> acc ''__proto__'' = None"
    using A[of "''__proto__''"] merged_keeps_some[of acc "''__proto__''" fs] by auto
  show ?case
  proof (rule ext)
    fix k
    show "accumulate acc (fs @ [f]) k =
            (if k = ''__proto__'' \<and> acc ''__proto__'' = None then None
             else merged acc (fs @ [f]) k)"
    proof (cases "present_nonempty f")
      case False
      then show ?thesis
        using A[of k]
        by (simp add: accumulate_append present_nonempty_iff[symmetric] merged_snoc)
    next
      case True
      have "accumulate acc (fs @ [f]) k = obj_set ?A (the (key f)) (the (val f)) k"
        using True by (simp add: accumulate_append present_nonempty_iff[symmetric])
      then show ?thesis
        using True A[of k] none
        by (auto simp: obj_set_def merged_snoc)
    qed
  qed
qed

lemma accumulate_merged:
  "k \<noteq> ''__proto__'' \<Longrightarrow> accumulate acc fs k = merged acc fs k"
  by (simp add: accumulate_apply)

lemma merged_idem: "merged (merged acc fs) fs = merged acc fs"
  by (rule ext) (simp add: merged_def split: option.splits)

lemma accumulate_idem: "accumulate (accumulate acc fs) fs = accumulate acc fs"
proof (rule ext)
  fix k
  let ?A = "accumulate acc fs"
  have A: "?A k = (if k = ''__proto__'' \<and> acc ''__proto__'' = None then None
                   else merged acc fs k)" for k
    by (simp add: accumulate_apply)
  have none: "?A ''__proto__'' = None \<longleftrightarrow> acc ''__proto__'' = None"
    using A[of "''__proto__''"] merged_keeps_some[of acc "''__proto__''" fs] by auto
  have m: "merged ?A fs k = merged acc fs k"
    if "\<not> (k = ''__proto__'' \<and> acc ''__proto__'' = None)"
    using that A[of k] by (simp add: merged_def split: option.splits)
  have "accumulate ?A fs k = (if k = ''__proto__'' \<and> ?A ''__proto__'' = None then None
                   else merged ?A fs k)"
    by (simp add: accumulate_apply)
  then show "accumulate ?A fs k = ?A k"
    using A[of k] none m by auto
qed

subsection \<open>The store\<close>

lemma map_has_iff: "map_has m k \<longleftrightarrow> k \<in> set (map fst m)"
  by (auto simp: map_has_def list_ex_iff)

lemma map_get_None_iff: "map_get m k = None \<longleftrightarrow> \<not> map_has m k"
  by (simp add: map_get_def map_has_iff map_of_eq_None_iff)

lemma map_get_delete: "map_get (map_delete m k) k = None"
  by (auto simp: map_get_def map_delete_def map_of_eq_None_iff)

lemma accumulator_sessions: "sessions (snd (accumulator st s r)) = sessions st"
  by (simp add: accumulator_def Let_def split: turn_result.splits form_data.splits)

lemma sendMessage_sessions: "sessions (snd (sendMessage parse gw st sid message)) = sessions st"
proof (cases "map_get (sessions st) sid")
  case None
  then show ?thesis by (simp add: sendMessage_def)
next
  case (Some s)
  obtain res hist where ai: "ai_sendMessage parse gw (Some (chat s)) message (turns st) = (res, hist)"
    by (cases "ai_sendMessage parse gw (Some (chat s)) message (turns st)")
  show ?thesis
  proof (cases res)
    case (Inl e)
    with Some ai show ?thesis by (simp add: sendMessage_def)
  next
    case (Inr r)
    obtain out st' where acc: "accumulator (st\<lparr>turns := hist\<rparr>) s r = (out, st')"
      by (cases "accumulator (st\<lparr>turns := hist\<rparr>) s r")
    have "sessions st' = sessions (st\<lparr>turns := hist\<rparr>)"
      using accumulator_sessions[of "st\<lparr>turns := hist\<rparr>" s r] acc by simp
    with Some ai Inr acc show ?thesis by (simp add: sendMessage_def)
  qed
qed

lemma fold_map_delete:
  "fold (\<lambda>k m. map_delete m k) ks m = filter (\<lambda>e. fst e \<notin> set ks) m"
proof (induction ks arbitrary: m)
  case Nil
  show ?case by simp
next
  case (Cons k ks)
  have "fold (\<lambda>k m. map_delete m k) (k # ks) m = fold (\<lambda>k m. map_delete m k) ks (map_delete m k)"
    by simp
  also have "\<dots> = filter (\<lambda>e. fst e \<notin> set ks) (map_delete m k)"
    by (rule Cons)
  also have "\<dots> = filter (\<lambda>e. fst e \<notin> set (k # ks)) m"
    by (auto simp: map_delete_def intro: filter_cong)
  finally show ?case .
qed

lemma key_of_filtered:
  assumes "distinct (map fst m)" and "e \<in> set m"
  shows "fst e \<in> set (map fst (filter P m)) \<longleftrightarrow> P e"
proof
  assume "fst e \<in> set (map fst (filter P m))"
  then obtain e' where e': "e' \<in> set m" "P e'" "fst e' = fst e" by auto
  with assms have "e' = e"
    by (metis eq_key_imp_eq_value prod.collapse)
  with e' show "P e" by simp
next
  assume "P e"
  with assms(2) show "fst e \<in> set (map fst (filter P m))" by auto
qed

lemma delete_expired:
  assumes "distinct (map fst m)"
  shows "fold (\<lambda>k m. map_delete m k) (map fst (filter P m)) m = filter (\<lambda>e. \<not> P e) m"
proof -
  have "\<And>e. e \<in> set m \<Longrightarrow> (fst e \<notin> set (map fst (filter P m))) = (\<not> P e)"
    using key_of_filtered[OF assms] by blast
  then show ?thesis
    unfolding fold_map_delete by (rule filter_cong[OF refl])
qed

lemma length_filter_split: "length (filter P xs) + length (filter (\<lambda>x. \<not> P x) xs) = length xs"
  by (induction xs) simp_all

lemma map_set_entries: "set (map_set m k v) \<subseteq> insert (k, v) (set m)"
  by (induction m) auto

lemma map_set_keys: "set (map fst (map_set m k v)) = insert k (set (map fst m))"
  by (induction m) auto

lemma map_set_distinct: "distinct (map fst m) \<Longrightarrow> distinct (map fst (map_set m k v))"
proof (induction m)
  case Nil
  show ?case by simp
next
  case (Cons e m)
  then show ?case using map_set_keys[of m k v] by auto
qed

lemma store_consistent_iff:
  "store_consistent st \<longleftrightarrow> (\<forall>e \<in> set (sessions st). id_session (snd e) = fst e)"
  by (simp add: store_consistent_def getSessionCount_def getAllSessionIds_def hasSession_def
      map_has_iff)

lemma createSession_sessions:
  "set (sessions (snd (createSession uuid newChat now sch st)))
     \<subseteq> insert (uuid, \<lparr>id_session = uuid, schema = sch, chat = newChat, createdAt = now,
                       accumulatedFormData = next_free st\<rparr>) (set (sessions st))"
  using map_set_entries[of "sessions st" uuid]
  by (auto simp: createSession_def Let_def split: sum.splits)

lemma cleanup_sessions:
  "set (sessions (snd (cleanupExpiredSessions now arg st))) \<subseteq> set (sessions st)"
  by (simp add: cleanupExpiredSessions_def Let_def fold_map_delete)

lemma cleanup_fst:
  "fst (cleanupExpiredSessions now arg st)
     = length (filter (\<lambda>e. num_gt (ageMinutes now (snd e))
                 (case arg of None \<Rightarrow> Finite 60 | Some m \<Rightarrow> m)) (sessions st))"
  by (simp add: cleanupExpiredSessions_def Let_def)

text \<open>The two conditions on the representation hold for a new service and are kept by every
  operation.\<close>

lemma unique_keys_preserved:
  assumes "unique_keys st"
  shows "unique_keys new_SessionService"
    and "unique_keys (snd (createSession uuid newChat now sch st))"
    and "unique_keys (snd (sendMessage parse gw st sid message))"
    and "unique_keys (snd (deleteSession st sid))"
    and "unique_keys (snd (cleanupExpiredSessions now arg st))"
proof -
  have d: "distinct (map fst (sessions st))" using assms by (simp add: unique_keys_def)
  show "unique_keys new_SessionService" by (simp add: unique_keys_def new_SessionService_def)
  show "unique_keys (snd (createSession uuid newChat now sch st))"
    using d map_set_distinct[OF d]
    by (simp add: unique_keys_def createSession_def Let_def split: sum.splits)
  show "unique_keys (snd (sendMessage parse gw st sid message))"
    using d by (simp add: unique_keys_def sendMessage_sessions)
  show "unique_keys (snd (deleteSession st sid))"
    using d by (simp add: unique_keys_def deleteSession_def map_delete_def distinct_map_filter)
  show "unique_keys (snd (cleanupExpiredSessions now arg st))"
    using d by (simp add: unique_keys_def cleanupExpiredSessions_def Let_def fold_map_delete
        distinct_map_filter)
qed

lemma accumulator_next_free: "next_free st \<le> next_free (snd (accumulator st s r))"
  by (simp add: accumulator_def Let_def split: turn_result.splits form_data.splits)

lemma sendMessage_next_free:
  "next_free st \<le> next_free (snd (sendMessage parse gw st sid message))"
proof (cases "map_get (sessions st) sid")
  case None
  then show ?thesis by (simp add: sendMessage_def)
next
  case (Some s)
  obtain res hist where ai: "ai_sendMessage parse gw (Some (chat s)) message (turns st) = (res, hist)"
    by (cases "ai_sendMessage parse gw (Some (chat s)) message (turns st)")
  show ?thesis
  proof (cases res)
    case (Inl e)
    with Some ai show ?thesis by (simp add: sendMessage_def)
  next
    case (Inr r)
    obtain out st' where acc: "accumulator (st\<lparr>turns := hist\<rparr>) s r = (out, st')"
      by (cases "accumulator (st\<lparr>turns := hist\<rparr>) s r")
    have "next_free (st\<lparr>turns := hist\<rparr>) \<le> next_free st'"
      using accumulator_next_free[of "st\<lparr>turns := hist\<rparr>" s r] acc by simp
    with Some ai Inr acc show ?thesis by (simp add: sendMessage_def)
  qed
qed

lemma allocated_preserved:
  assumes "allocated st"
  shows "allocated new_SessionService"
    and "allocated (snd (createSession uuid newChat now sch st))"
    and "allocated (snd (sendMessage parse gw st sid message))"
    and "allocated (snd (deleteSession st sid))"
    and "allocated (snd (cleanupExpiredSessions now arg st))"
proof -
  have a: "\<forall>e \<in> set (sessions st). accumulatedFormData (snd e) < next_free st"
    using assms by (simp add: allocated_def)
  show "allocated new_SessionService" by (simp add: allocated_def new_SessionService_def)
  have "next_free st \<le> next_free (snd (createSession uuid newChat now sch st))"
    by (simp add: createSession_def Let_def split: sum.splits)
  moreover have "next_free (snd (createSession uuid newChat now sch st)) = next_free st + 1"
    if "sessions (snd (createSession uuid newChat now sch st)) \<noteq> sessions st"
    using that by (auto simp: createSession_def Let_def split: sum.splits if_splits)
  ultimately show "allocated (snd (createSession uuid newChat now sch st))"
    unfolding allocated_def
    using a createSession_sessions[of uuid newChat now sch st] by fastforce
  show "allocated (snd (sendMessage parse gw st sid message))"
    unfolding allocated_def
    using a sendMessage_next_free[of st parse gw sid message]
    by (fastforce simp: sendMessage_sessions)
  show "allocated (snd (deleteSession st sid))"
    using a by (simp add: allocated_def deleteSession_def map_delete_def)
  show "allocated (snd (cleanupExpiredSessions now arg st))"
    unfolding allocated_def
    using a cleanup_sessions[of now arg st]
    by (auto simp: cleanupExpiredSessions_def Let_def)
qed

subsection \<open>Evaluating the worked inputs\<close>

lemma autoFormat_example_fields: "map autoFormatField example_fields = example_fields"
  by (simp add: example_fields_def autoFormatField_def isUrlKey_def toLowerChar_def
      kelvin_sign_def dotted_capital_I_def)

lemma ai_fields:
  "ai_sendMessage parse_fields example_gateway (Some 7) (Some ''hi'') []
     = (Inr (Structured (Some ''ok'') (FieldSeq example_fields)), [(7, ''hi'')])"
  by (simp add: ai_sendMessage_def try_sendMessage_def example_gateway_def parse_fields_def
      trim_hi Let_def autoFormat_example_fields)

lemma ai_fields_spaces:
  "ai_sendMessage parse_fields example_gateway (Some 7) (Some ''  '') []
     = (Inr (Structured (Some ''ok'') (FieldSeq example_fields)), [(7, '''')])"
  by (simp add: ai_sendMessage_def try_sendMessage_def example_gateway_def parse_fields_def
      trim_spaces Let_def autoFormat_example_fields)

lemma ai_proto:
  "ai_sendMessage parse_proto example_gateway (Some 7) (Some ''hi'') []
     = (Inr (Structured (Some ''ok'') (FieldSeq proto_fields)), [(7, ''hi'')])"
  by (simp add: ai_sendMessage_def try_sendMessage_def example_gateway_def parse_proto_def
      trim_hi Let_def proto_fields_def autoFormatField_def isUrlKey_def toLowerChar_def
      kelvin_sign_def dotted_capital_I_def)


lemma expo_values:
  "expo 5400000 = 22" "expo 90 = 6" "expo 600000 = 19" "expo 10 = 3" "expo 18000 = 14"
  "expo (3 / 10) = - 2"
  by (simp_all add: expo_def compute_bitlen)

lemma to_double_values:
  "to_double 5400000 = Finite 5400000" "to_double 90 = Finite 90"
  "to_double 600000 = Finite 600000" "to_double 10 = Finite 10"
  "to_double 18000 = Finite 18000" "to_double (3 / 10) = Finite double_03"
  by (simp_all add: to_double_def expo_values round_half_even_def Let_def double_03_def)

lemma age_examples:
  "ageMinutes 6000000 \<lparr>id_session = i, schema = sc, chat = c, createdAt = 600000,
      accumulatedFormData = a\<rparr> = Finite 90"
  "ageMinutes 6000000 \<lparr>id_session = i, schema = sc, chat = c, createdAt = 5400000,
      accumulatedFormData = a\<rparr> = Finite 10"
  "ageMinutes 18000 cutoff_session = Finite double_03"
  by (simp_all add: ageMinutes_def date_minus_def to_double_values cutoff_session_def)

subsection \<open>Rounding\<close>

text \<open>The exponent is the one of the binade, and the rounded significand is within one
  half of the exact one.\<close>

lemma expo_bounds:
  assumes "0 < q"
  shows "2 powi (expo q) \<le> q \<and> q < 2 powi (expo q + 1)"
proof (cases "1 \<le> q")
  case True
  let ?n = "\<lfloor>q\<rfloor>"
  have n: "0 < ?n" using True by simp
  from bitlen_bounds[OF n] have b: "2 ^ nat (bitlen ?n - 1) \<le> ?n" "?n < 2 ^ nat (bitlen ?n)"
    by auto
  have bl: "1 \<le> bitlen ?n" using n by (simp add: bitlen_alt_def)
  have e: "expo q = bitlen ?n - 1" using True by (simp add: expo_def)
  have "(2::real) powi (bitlen ?n - 1) = 2 ^ nat (bitlen ?n - 1)"
    using bl by (simp add: power_int_def)
  also have "\<dots> = of_int (2 ^ nat (bitlen ?n - 1))" by simp
  also have "\<dots> \<le> of_int ?n" using b(1) by (simp only: of_int_le_iff)
  also have "\<dots> \<le> q" by simp
  finally have lo: "2 powi (expo q) \<le> q" by (simp add: e)
  have "?n + 1 \<le> 2 ^ nat (bitlen ?n)" using b(2) by simp
  then have "(of_int (?n + 1) :: real) \<le> of_int (2 ^ nat (bitlen ?n))"
    by (simp only: of_int_le_iff)
  then have "(of_int ?n :: real) + 1 \<le> 2 ^ nat (bitlen ?n)" by simp
  moreover have "q < of_int ?n + 1" by linarith
  ultimately have "q < 2 ^ nat (bitlen ?n)" by linarith
  moreover have "(2::real) powi (expo q + 1) = 2 ^ nat (bitlen ?n)"
    using bl by (simp add: e power_int_def)
  ultimately show ?thesis using lo by simp
next
  case False
  let ?c = "\<lceil>1 / q\<rceil>"
  let ?k = "bitlen (?c - 1)"
  have r: "1 < 1 / q" using False assms by simp
  then have c: "0 < ?c - 1" by linarith
  from bitlen_bounds[OF c] have b: "2 ^ nat (?k - 1) \<le> ?c - 1" "?c - 1 < 2 ^ nat ?k"
    by auto
  have kl: "1 \<le> ?k" using c by (simp add: bitlen_alt_def)
  have e: "expo q = - ?k" using False by (simp add: expo_def)
  have "?c \<le> 2 ^ nat ?k" using b(2) by simp
  then have "(of_int ?c :: real) \<le> of_int (2 ^ nat ?k)" by (simp only: of_int_le_iff)
  then have "(of_int ?c :: real) \<le> 2 ^ nat ?k" by simp
  moreover have "1 / q \<le> of_int ?c" by (rule le_of_int_ceiling)
  ultimately have up: "1 / q \<le> 2 ^ nat ?k" by linarith
  have "(of_int (2 ^ nat (?k - 1)) :: real) \<le> of_int (?c - 1)"
    using b(1) by (simp only: of_int_le_iff)
  then have "(2::real) ^ nat (?k - 1) \<le> of_int ?c - 1" by simp
  moreover have "(of_int ?c :: real) - 1 < 1 / q" by linarith
  ultimately have low: "2 ^ nat (?k - 1) < 1 / q" by linarith
  have p: "(0::real) < 2 ^ nat ?k" "(0::real) < 2 ^ nat (?k - 1)" by simp_all
  have "1 / 2 ^ nat ?k \<le> q"
    using up assms p(1) by (simp add: field_simps)
  moreover have "(2::real) powi (- ?k) = 1 / 2 ^ nat ?k"
    using kl by (simp add: power_int_def field_simps)
  ultimately have lo: "2 powi (expo q) \<le> q" by (simp add: e)
  have "q < 1 / 2 ^ nat (?k - 1)"
    using low assms p(2) by (simp add: field_simps)
  moreover have "(2::real) powi (- ?k + 1) = 1 / 2 ^ nat (?k - 1)"
  proof (cases "?k = 1")
    case True
    then show ?thesis by simp
  next
    case False
    with kl have "- ?k + 1 < 0" by simp
    then have "(2::real) powi (- ?k + 1) = inverse 2 ^ nat (?k - 1)"
      by (simp add: power_int_def)
    then show ?thesis by (simp add: field_simps power_inverse)
  qed
  ultimately show ?thesis using lo by (simp add: e)
qed

lemma expo_range:
  assumes "0 < q" and "2 powi lo \<le> q" and "q < 2 powi hi"
  shows "lo \<le> expo q \<and> expo q < hi"
proof -
  note b = expo_bounds[OF assms(1)]
  have "expo q < hi"
  proof (rule ccontr)
    assume "\<not> expo q < hi"
    then have "(2::real) powi hi \<le> 2 powi (expo q)"
      by (intro power_int_increasing) auto
    with b assms(3) show False by linarith
  qed
  moreover have "lo \<le> expo q"
  proof (rule ccontr)
    assume "\<not> lo \<le> expo q"
    then have "(2::real) powi (expo q + 1) \<le> 2 powi lo"
      by (intro power_int_increasing) auto
    with b assms(2) show False by linarith
  qed
  ultimately show ?thesis by simp
qed

lemma round_half_even_near:
  "of_int (round_half_even y) \<le> y + 1 / 2" "y - 1 / 2 \<le> of_int (round_half_even y)"
proof -
  define f where "f = \<lfloor>y\<rfloor>"
  have f: "of_int f \<le> y" "y < of_int f + 1" unfolding f_def by linarith+
  have r: "round_half_even y =
      (if y - of_int f < 1 / 2 then f else if 1 / 2 < y - of_int f then f + 1
       else if even f then f else f + 1)"
    by (simp add: round_half_even_def Let_def f_def)
  show "of_int (round_half_even y) \<le> y + 1 / 2"
    unfolding r using f by (auto split: if_splits)
  show "y - 1 / 2 \<le> of_int (round_half_even y)"
    unfolding r using f by (auto split: if_splits)
qed

lemma round_half_even_of_int: "round_half_even (of_int n) = n"
  by (simp add: round_half_even_def)

text \<open>The rounding of a positive number in the normal range, of a number that is not
  positive, and of an integer below \<open>2 ^ 53\<close>.\<close>

lemma to_double_pos:
  assumes "0 < q" and "- 1022 \<le> expo q" and "expo q < 1023"
  shows "to_double q
           = Finite (of_int (round_half_even (q / 2 powi (expo q - 52))) * 2 powi (expo q - 52))"
proof -
  let ?u = "(2::real) powi (expo q - 52)"
  let ?R = "round_half_even (q / ?u)"
  have u: "0 < ?u" by simp
  have "q < 2 powi (expo q + 1)" using expo_bounds[OF assms(1)] by simp
  then have "q / ?u < 2 powi (expo q + 1) / ?u" using u by (simp add: divide_strict_right_mono)
  also have "2 powi (expo q + 1) / ?u = (2::real) powi 53"
    by (simp add: power_int_diff[symmetric])
  finally have "q / ?u < 2 ^ 53" by simp
  moreover have "of_int ?R \<le> q / ?u + 1 / 2" by (rule round_half_even_near)
  ultimately have "(of_int ?R :: real) < of_int (2 ^ 53 + 1)" by simp
  then have "?R < 2 ^ 53 + 1" by (simp only: of_int_less_iff)
  then have "?R \<le> 2 ^ 53" by simp
  then have "(of_int ?R :: real) \<le> of_int (2 ^ 53)" by (simp only: of_int_le_iff)
  then have "(of_int ?R :: real) \<le> 2 powi 53" by simp
  then have "of_int ?R * ?u \<le> 2 powi 53 * ?u" using u by (simp add: mult_right_mono)
  also have "(2::real) powi 53 * ?u = 2 powi (expo q + 1)"
    using power_int_add[of "2::real" 53 "expo q - 52"] by (simp add: algebra_simps)
  also have "\<dots> \<le> 2 powi 1023"
    using assms(3) by (intro power_int_increasing) auto
  also have "\<dots> < (2::real) powi 1024"
    by (intro power_int_strict_increasing) auto
  finally have "\<not> 2 powi 1024 \<le> of_int ?R * ?u" by simp
  moreover have "max (expo q) (- 1022) = expo q" using assms(2) by simp
  ultimately show ?thesis
    using assms(1) by (simp add: to_double_def Let_def)
qed

lemma to_double_nonpos:
  assumes "q \<le> 0"
  shows "to_double q = NegInfinity \<or> (\<exists>v. v \<le> 0 \<and> to_double q = Finite v)"
proof (cases "q = 0")
  case True
  then show ?thesis by (simp add: to_double_def)
next
  case False
  with assms have neg: "q < 0" by simp
  let ?u = "(2::real) powi (max (expo \<bar>q\<bar>) (- 1022) - 52)"
  let ?R = "round_half_even (\<bar>q\<bar> / ?u)"
  have u: "0 < ?u" by simp
  have "0 < \<bar>q\<bar>" using neg by simp
  then have "0 < \<bar>q\<bar> / ?u" using u by (rule divide_pos_pos)
  moreover have "\<bar>q\<bar> / ?u - 1 / 2 \<le> of_int ?R" by (rule round_half_even_near)
  ultimately have "(of_int (- 1) :: real) < of_int ?R" by simp
  then have "- 1 < ?R" by (simp only: of_int_less_iff)
  then have "0 \<le> (of_int ?R :: real)" by simp
  then have "0 \<le> of_int ?R * ?u" using u by simp
  then have "sgn q * (of_int ?R * ?u) \<le> 0" using neg by (simp add: mult_le_0_iff)
  then show ?thesis using neg by (auto simp: to_double_def Let_def)
qed

lemma not_gt_nonpos:
  assumes "x = NegInfinity \<or> (\<exists>v. v \<le> 0 \<and> x = Finite v)" and "0 \<le> t"
  shows "\<not> num_gt x (Finite t)"
  using assms by auto

lemma step_inverse:
  assumes "e \<le> 52"
  shows "(2::real) powi (e - 52) * 2 ^ nat (52 - e) = 1"
proof -
  have "(2::real) powi ((e - 52) + (52 - e)) = 2 powi (e - 52) * 2 powi (52 - e)"
    by (rule power_int_add) simp
  moreover have "(2::real) powi (52 - e) = 2 ^ nat (52 - e)"
    using assms by (simp add: power_int_def)
  ultimately show ?thesis by simp
qed

lemma to_double_of_int:
  assumes "0 < x" and "x < 2 ^ 53"
  shows "to_double (of_int x) = Finite (of_int x)"
proof -
  let ?q = "of_int x :: real"
  let ?e = "expo ?q"
  have q: "0 < ?q" using assms(1) by simp
  have "(of_int 1 :: real) \<le> of_int x" using assms(1) by (simp only: of_int_le_iff)
  then have lo: "2 powi 0 \<le> ?q" by simp
  have "(of_int x :: real) < of_int (2 ^ 53)" using assms(2) by (simp only: of_int_less_iff)
  then have hi: "?q < 2 powi 53" by simp
  from expo_range[OF q lo hi] have e: "0 \<le> ?e" "?e < 53" by simp_all
  let ?N = "(2::int) ^ nat (52 - ?e)"
  have inv: "(2::real) powi (?e - 52) * of_int ?N = 1"
    using step_inverse[of ?e] e by simp
  have u: "(0::real) < 2 powi (?e - 52)" by simp
  have "?q / 2 powi (?e - 52) = ?q * of_int ?N"
    using inv u by (simp add: field_simps)
  also have "\<dots> = of_int (x * ?N)" by simp
  finally have "round_half_even (?q / 2 powi (?e - 52)) = x * ?N"
    by (simp only: round_half_even_of_int)
  moreover have "of_int (x * ?N) * 2 powi (?e - 52) = ?q"
  proof -
    have "of_int (x * ?N) * 2 powi (?e - 52) = ?q * (2 powi (?e - 52) * of_int ?N)"
      by (simp only: of_int_mult mult.assoc mult.commute[of "of_int ?N"])
    also have "\<dots> = ?q" by (simp only: inv mult_1_right)
    finally show ?thesis .
  qed
  ultimately show ?thesis
    using to_double_pos[OF q] e by simp
qed

text \<open>For a threshold that is a whole, non-negative number of minutes and a time difference
  below \<open>2 ^ 53\<close> milliseconds, the comparison the code makes in doubles is the exact
  one.\<close>

lemma ageMinutes_whole_minutes:
  assumes "0 \<le> m" and "now - createdAt s < 2 ^ 53"
  shows "num_gt (ageMinutes now s) (Finite (of_int m)) \<longleftrightarrow> older_than now (of_int m) s"
proof -
  define x where "x = now - createdAt s"
  have age: "ageMinutes now s = divide_by (to_double (of_int x)) 60000"
    by (simp add: ageMinutes_def date_minus_def x_def)
  have old: "older_than now (of_int m) s \<longleftrightarrow> m * 60000 < x"
  proof -
    have "older_than now (of_int m) s \<longleftrightarrow> (of_int (m * 60000) :: real) < of_int x"
      by (simp add: older_than_def x_def)
    then show ?thesis by (simp only: of_int_less_iff)
  qed
  have m0: "(0::real) \<le> of_int m" using assms(1) by simp
  show ?thesis
  proof (cases "0 < x")
    case False
    then have "(of_int x :: real) \<le> 0" by simp
    from to_double_nonpos[OF this]
    have "ageMinutes now s = NegInfinity \<or> (\<exists>v. v \<le> 0 \<and> ageMinutes now s = Finite v)"
    proof
      assume "to_double (of_int x) = NegInfinity"
      then show ?thesis by (simp add: age)
    next
      assume "\<exists>v. v \<le> 0 \<and> to_double (real_of_int x) = Finite v"
      then obtain v where v: "v \<le> 0" "to_double (real_of_int x) = Finite v" by blast
      then have "v / 60000 \<le> 0" by simp
      from to_double_nonpos[OF this] show ?thesis using v by (simp add: age)
    qed
    then have "\<not> num_gt (ageMinutes now s) (Finite (of_int m))"
      using m0 by (rule not_gt_nonpos)
    moreover have "\<not> m * 60000 < x" using False assms(1) by simp
    ultimately show ?thesis using old by simp
  next
    case True
    have x53: "x < 2 ^ 53" using assms(2) by (simp add: x_def)
    define q :: real where "q = of_int x / 60000"
    have age': "ageMinutes now s = to_double q"
      using to_double_of_int[OF True x53] by (simp add: age q_def)
    have q: "0 < q" using True by (simp add: q_def)
    have "(of_int 1 :: real) \<le> of_int x" using True by (simp only: of_int_le_iff)
    then have lo: "2 powi (- 16) \<le> q" by (simp add: q_def)
    have "(of_int x :: real) < of_int (2 ^ 53)" using x53 by (simp only: of_int_less_iff)
    then have hi: "q < 2 powi 38" by (simp add: q_def)
    define e where "e = expo q"
    from expo_range[OF q lo hi] have e: "- 16 \<le> e" "e < 38" by (simp_all add: e_def)
    define N :: int where "N = 2 ^ nat (52 - e)"
    define u :: real where "u = 2 powi (e - 52)"
    have inv: "u * of_int N = 1"
      using step_inverse[of e] e by (simp add: u_def N_def)
    have u: "0 < u" by (simp add: u_def)
    have "(2::int) ^ 15 \<le> 2 ^ nat (52 - e)"
      using e by (intro power_increasing) auto
    then have N15: "32768 \<le> N" by (simp add: N_def)
    then have N15r: "(32768::real) \<le> of_int N" by linarith
    define R where "R = round_half_even (q / u)"
    have td: "to_double q = Finite (of_int R * u)"
      using to_double_pos[OF q] e by (simp add: e_def u_def R_def)
    have qu: "q / u = q * of_int N" using inv u by (simp add: field_simps)
    have near: "of_int R \<le> q * of_int N + 1 / 2" "q * of_int N - 1 / 2 \<le> of_int R"
      using round_half_even_near[of "q / u"] by (simp_all add: R_def qu)
    have gt: "num_gt (ageMinutes now s) (Finite (of_int m)) \<longleftrightarrow> m * N < R"
    proof -
      have Npos: "(0::real) < of_int N" using N15r by linarith
      have "of_int R * u * of_int N = of_int R * (u * of_int N)" by (simp only: mult.assoc)
      also have "\<dots> = of_int R" by (simp only: inv mult_1_right)
      finally have cancel_u: "of_int R * u * of_int N = (of_int R :: real)" .
      have "(of_int m < of_int R * u)
              \<longleftrightarrow> (of_int m * of_int N < of_int R * u * (of_int N :: real))"
        using Npos by (simp only: mult_less_cancel_right_pos)
      then have "(of_int m < of_int R * u) \<longleftrightarrow> (of_int m * of_int N < (of_int R :: real))"
        by (simp only: cancel_u)
      also have "\<dots> \<longleftrightarrow> (of_int (m * N) :: real) < of_int R" by simp
      also have "\<dots> \<longleftrightarrow> m * N < R" by (simp only: of_int_less_iff)
      finally show ?thesis by (simp add: age' td)
    qed
    show ?thesis
    proof (cases "m * 60000 < x")
      case True
      then have "m * 60000 + 1 \<le> x" by simp
      then have "(of_int (m * 60000 + 1) :: real) \<le> of_int x" by (simp only: of_int_le_iff)
      then have "of_int m + 1 / 60000 \<le> q" by (simp add: q_def field_simps)
      then have "(of_int m + 1 / 60000) * of_int N \<le> q * of_int N"
        using N15r by (intro mult_right_mono) auto
      then have "of_int m * of_int N + of_int N / 60000 \<le> q * of_int N"
        by (simp add: algebra_simps)
      moreover have "(32768::real) / 60000 \<le> of_int N / 60000" using N15r by simp
      ultimately have "(of_int (m * N) :: real) < of_int R" using near(2) by simp
      then have "m * N < R" by (simp only: of_int_less_iff)
      with True gt old show ?thesis by simp
    next
      case False
      then have "x \<le> m * 60000" by simp
      then have "(of_int x :: real) \<le> of_int (m * 60000)" by (simp only: of_int_le_iff)
      then have "q \<le> of_int m" by (simp add: q_def field_simps)
      then have "q * of_int N \<le> of_int m * of_int N"
        using N15r by (intro mult_right_mono) auto
      then have "(of_int R :: real) < of_int (m * N + 1)" using near(1) by simp
      then have "R < m * N + 1" by (simp only: of_int_less_iff)
      then have "\<not> m * N < R" by simp
      with False gt old show ?thesis by simp
    qed
  qed
qed

section \<open>sendMessage on a field sequence\<close>

text \<open>
  For an existing session and a structured result whose \<open>form_data\<close> is a sequence of
  records, \<open>sendMessage\<close> sets, in the session's accumulated object, every key other than
  \<open>__proto__\<close> to the value of the last record for that key whose key and value are
  both present and non-empty, keeps every other such key as earlier turns left it, and
  resolves to \<open>{ai_message, form_data}\<close> where \<open>form_data\<close> is a newly allocated
  object with the same contents, distinct from the session's own.
\<close>

theorem sendMessage_merges_fields:
  assumes "map_get (sessions st) sid = Some s"
    and "ai_sendMessage parse gw (Some (chat s)) message (turns st)
           = (Inr (Structured m (FieldSeq fs)), hist)"
    and "allocated st"
  shows "\<exists>c st'. sendMessage parse gw st sid message = (Inr (Accumulated m c), st') \<and>
            (\<forall>k. k \<noteq> ''__proto__'' \<longrightarrow>
               heap st' (accumulatedFormData s) k = merged (heap st (accumulatedFormData s)) fs k) \<and>
            heap st' c = heap st' (accumulatedFormData s) \<and>
            c \<noteq> accumulatedFormData s \<and> c = next_free st \<and>
            (\<forall>a. a \<noteq> accumulatedFormData s \<and> a \<noteq> c \<longrightarrow> heap st' a = heap st a) \<and>
            sessions st' = sessions st"
proof -
  let ?a = "accumulatedFormData s"
  let ?h = "(heap st)(?a := accumulate (heap st ?a) fs)"
  let ?c = "next_free st"
  let ?st' = "st\<lparr>turns := hist, heap := ?h(?c := ?h ?a), next_free := ?c + 1\<rparr>"
  have run: "sendMessage parse gw st sid message = (Inr (Accumulated m ?c), ?st')"
    using assms(1,2) by (simp add: sendMessage_def accumulator_def Let_def)
  have "(sid, s) \<in> set (sessions st)"
    using assms(1) by (simp add: map_get_def map_of_SomeD)
  then have "?a < ?c" using assms(3) unfolding allocated_def by fastforce
  then have ne: "?c \<noteq> ?a" by simp
  have "\<forall>k. k \<noteq> ''__proto__'' \<longrightarrow> heap ?st' ?a k = merged (heap st ?a) fs k"
    using ne by (simp add: accumulate_merged)
  moreover have "heap ?st' ?c = heap ?st' ?a" by simp
  moreover have "\<forall>a. a \<noteq> ?a \<and> a \<noteq> ?c \<longrightarrow> heap ?st' a = heap st a" by simp
  moreover have "sessions ?st' = sessions st" by simp
  ultimately show ?thesis using run ne by blast
qed

section \<open>The claims\<close>

text \<open>
  C1. The claim has \<open>accumulated[key] = value\<close> take effect for every record whose key
  and value are both present and non-empty. On the example store, the record
  \<open>{key: "__proto__", value: "x"}\<close> is such a record and the merge the claim describes
  holds \<open>"x"\<close> under \<open>__proto__\<close>; the code's assignment stores nothing, so the
  session's accumulated form data and the returned copy are both still \<open>{a: "1"}\<close>.
\<close>

theorem sendMessage_drops_proto_key:
  "present_nonempty \<lparr>key = Some ''__proto__'', val = Some ''x''\<rparr> \<and>
   merged (heap example_state (accumulatedFormData example_session)) proto_fields ''__proto__''
     = Some ''x'' \<and>
   fst (sendMessage parse_proto example_gateway example_state ''s1'' (Some ''hi''))
     = Inr (Accumulated (Some ''ok'') 1) \<and>
   heap (snd (sendMessage parse_proto example_gateway example_state ''s1'' (Some ''hi'')))
        (accumulatedFormData example_session) = [''a'' \<mapsto> ''1''] \<and>
   heap (snd (sendMessage parse_proto example_gateway example_state ''s1'' (Some ''hi''))) 1
     = [''a'' \<mapsto> ''1'']"
proof -
  have run: "sendMessage parse_proto example_gateway example_state ''s1'' (Some ''hi'')
      = (Inr (Accumulated (Some ''ok'') 1),
         example_state\<lparr>turns := [(7, ''hi'')],
           heap := (\<lambda>a. Map.empty)(0 := [''a'' \<mapsto> ''1''], 1 := [''a'' \<mapsto> ''1'']),
           next_free := 2\<rparr>)"
    using ai_proto
    by (simp add: sendMessage_def map_get_def example_state_def example_session_def
        accumulator_def Let_def proto_fields_def obj_set_def)
  have "merged (heap example_state (accumulatedFormData example_session)) proto_fields
          ''__proto__'' = Some ''x''"
    by (simp add: merged_def latest_for_def present_nonempty_def proto_fields_def)
  moreover have "present_nonempty \<lparr>key = Some ''__proto__'', val = Some ''x''\<rparr>"
    by (simp add: present_nonempty_def)
  ultimately show ?thesis
    unfolding run by (simp add: example_session_def)
qed

text \<open>
  C2. \<open>validateSchema\<close> never throws, and answers \<open>true\<close> exactly for a non-array
  key-value object with at least one field whose every declared type is, up to case, one
  of the seven allowed tags.
\<close>

theorem validateSchema_correct: "validateSchema v = Inr (schema_well_formed v)"
proof (cases v)
  case (JObj fs)
  let ?q = "\<lambda>k. allowed_type (case map_of fs k of None \<Rightarrow> JUndefined | Some t \<Rightarrow> t)"
  have ev: "every (\<lambda>field. case get_prop (JObj fs) field of Inl e \<Rightarrow> Inl e
              | Inr type \<Rightarrow> if typeof type = ''string'' then
                  (case call_toLowerCase type of Inl e \<Rightarrow> Inl e
                   | Inr lowered \<Rightarrow> Inr (lowered \<in> set validTypes))
                else Inr False) (remdups (map fst fs))
            = Inr (list_all ?q (remdups (map fst fs)))"
    by (rule every_pure) (simp add: field_check)
  have all: "list_all ?q (remdups (map fst fs)) \<longleftrightarrow> (\<forall>k t. map_of fs k = Some t \<longrightarrow> allowed_type t)"
  proof
    assume h: "list_all ?q (remdups (map fst fs))"
    show "\<forall>k t. map_of fs k = Some t \<longrightarrow> allowed_type t"
    proof (intro allI impI)
      fix k t assume m: "map_of fs k = Some t"
      then have "k \<in> set (remdups (map fst fs))"
        by (auto dest: map_of_SomeD intro: rev_image_eqI)
      with h have "?q k" unfolding list_all_iff by blast
      with m show "allowed_type t" by simp
    qed
  next
    assume h: "\<forall>k t. map_of fs k = Some t \<longrightarrow> allowed_type t"
    show "list_all ?q (remdups (map fst fs))"
      unfolding list_all_iff
    proof
      fix k assume "k \<in> set (remdups (map fst fs))"
      then have "k \<in> fst ` set fs" by simp
      then have "map_of fs k \<noteq> None" by (simp add: map_of_eq_None_iff)
      then obtain t where "map_of fs k = Some t" by blast
      with h show "?q k" by simp
    qed
  qed
  have "validateSchema v = (if fs = [] then Inr False else Inr (list_all ?q (remdups (map fst fs))))"
    unfolding validateSchema_def JObj using ev by simp
  moreover have "schema_well_formed v \<longleftrightarrow> fs \<noteq> [] \<and> (\<forall>k t. map_of fs k = Some t \<longrightarrow> allowed_type t)"
    by (simp add: schema_well_formed_def JObj)
  ultimately show ?thesis using all by simp
qed (simp_all add: validateSchema_def schema_well_formed_def)

theorem validateSchema_correct_witness:
  "validateSchema (JObj [(''name'', JStr ''String''), (''site'', JStr ''URL'')]) = Inr True \<and>
   schema_well_formed (JObj [(''name'', JStr ''String''), (''site'', JStr ''URL'')]) \<and>
   validateSchema (JObj []) = Inr False \<and>
   validateSchema (JArr [JStr ''string'']) = Inr False \<and>
   validateSchema (JStr ''string'') = Inr False \<and>
   validateSchema JNull = Inr False \<and>
   validateSchema (JObj [(''a'', JStr ''text'')]) = Inr False \<and>
   \<not> schema_well_formed (JObj [(''a'', JStr ''text'')])"
proof -
  have run: "validateSchema (JObj [(''name'', JStr ''String''), (''site'', JStr ''URL'')]) = Inr True"
    "validateSchema (JObj []) = Inr False"
    "validateSchema (JArr [JStr ''string'']) = Inr False"
    "validateSchema (JStr ''string'') = Inr False"
    "validateSchema JNull = Inr False"
    "validateSchema (JObj [(''a'', JStr ''text'')]) = Inr False"
    by (simp_all add: validateSchema_def validTypes_def toLowerChar_def kelvin_sign_def dotted_capital_I_def)
  show ?thesis
    using run
      validateSchema_correct[of "JObj [(''name'', JStr ''String''), (''site'', JStr ''URL'')]"]
      validateSchema_correct[of "JObj [(''a'', JStr ''text'')]"]
    by simp
qed

text \<open>
  C3. The claim asks \<open>getSessionInfo\<close> for a snapshot copy of the accumulated form
  data. The code hands out the address of the session's own object: on the example store,
  writing one property through the returned reference changes the session's accumulated
  form data.
\<close>

theorem getSessionInfo_shares_form_data:
  "info_accumulatedFormData (the (getSessionInfo example_state ''s1''))
     = accumulatedFormData example_session \<and>
   heap example_state (accumulatedFormData example_session) ''a'' = Some ''1'' \<and>
   heap (set_property example_state
           (info_accumulatedFormData (the (getSessionInfo example_state ''s1''))) ''a'' ''X'')
        (accumulatedFormData example_session) ''a'' = Some ''X''"
  by (simp add: getSessionInfo_def map_get_def set_property_def obj_set_def example_state_def
      example_session_def)

text \<open>
  C4, as the code has it. The claim compares the age with the threshold; the code compares
  the age in minutes as a double, the quotient rounded to the nearest double. With the
  threshold \<open>0.3\<close> (the double \<open>double_03\<close>, a little below three tenths) and a
  session 18000 milliseconds old, the age exceeds the threshold, the rounded quotient is
  the threshold itself, and the sweep keeps the session.
\<close>

theorem cleanup_rounding_counterexample:
  "to_double (3 / 10) = Finite double_03 \<and>
   older_than 18000 double_03 cutoff_session \<and>
   cleanupExpiredSessions 18000 (Some (Finite double_03)) cutoff_state = (0, cutoff_state)"
proof -
  have "older_than 18000 double_03 cutoff_session"
    by (simp add: older_than_def double_03_def cutoff_session_def)
  moreover have "cleanupExpiredSessions 18000 (Some (Finite double_03)) cutoff_state
                   = (0, cutoff_state)"
    by (simp add: cleanupExpiredSessions_def cutoff_state_def age_examples Let_def)
  ultimately show ?thesis using to_double_values by simp
qed

text \<open>
  C4, amended. On a store with one entry per key, the sweep deletes exactly the sessions
  whose age in minutes, computed in double precision as (now - createdAt) / 60000, exceeds
  the threshold (60 when none is given), keeps every other entry as it is, and returns the
  number deleted; a \<open>sendMessage\<close> before the sweep does not change its verdict. When
  the threshold is a whole, non-negative number of minutes and every session was created
  less than \<open>2 ^ 53\<close> milliseconds before now, these are exactly the sessions whose age
  exceeds the threshold. With sessions created 90 and 10 minutes ago and the threshold 60,
  the first is deleted and the result is 1.
\<close>

theorem cleanupExpiredSessions_correct:
  assumes "unique_keys st"
    and "threshold = (case arg of None \<Rightarrow> Finite 60 | Some t \<Rightarrow> t)"
  shows "cleanupExpiredSessions now arg st
           = (length (filter (\<lambda>e. num_gt (ageMinutes now (snd e)) threshold) (sessions st)),
              st\<lparr>sessions :=
                   filter (\<lambda>e. \<not> num_gt (ageMinutes now (snd e)) threshold) (sessions st)\<rparr>) \<and>
         fst (cleanupExpiredSessions now arg st)
           + length (sessions (snd (cleanupExpiredSessions now arg st))) = length (sessions st) \<and>
         fst (cleanupExpiredSessions now arg (snd (sendMessage parse gw st sid message)))
           = fst (cleanupExpiredSessions now arg st) \<and>
         (threshold = Finite (of_int m) \<and> 0 \<le> m \<and>
          (\<forall>e \<in> set (sessions st). now - createdAt (snd e) < 2 ^ 53)
          \<longrightarrow> cleanupExpiredSessions now arg st
                = (length (filter (\<lambda>e. older_than now (of_int m) (snd e)) (sessions st)),
                   st\<lparr>sessions :=
                        filter (\<lambda>e. \<not> older_than now (of_int m) (snd e)) (sessions st)\<rparr>))"
proof -
  let ?P = "\<lambda>e. num_gt (ageMinutes now (snd e)) threshold"
  have d: "distinct (map fst (sessions st))" using assms(1) by (simp add: unique_keys_def)
  have run: "cleanupExpiredSessions now arg st
           = (length (filter ?P (sessions st)), st\<lparr>sessions := filter (\<lambda>e. \<not> ?P e) (sessions st)\<rparr>)"
    using delete_expired[OF d, of ?P] assms(2)
    by (simp add: cleanupExpiredSessions_def Let_def)
  have total: "fst (cleanupExpiredSessions now arg st)
           + length (sessions (snd (cleanupExpiredSessions now arg st))) = length (sessions st)"
    unfolding run by (simp add: length_filter_split)
  have activity: "fst (cleanupExpiredSessions now arg (snd (sendMessage parse gw st sid message)))
           = fst (cleanupExpiredSessions now arg st)"
    by (simp add: cleanup_fst sendMessage_sessions)
  have exact: "cleanupExpiredSessions now arg st
                = (length (filter (\<lambda>e. older_than now (of_int m) (snd e)) (sessions st)),
                   st\<lparr>sessions :=
                        filter (\<lambda>e. \<not> older_than now (of_int m) (snd e)) (sessions st)\<rparr>)"
    if t: "threshold = Finite (of_int m)" and m: "0 \<le> m"
      and r: "\<forall>e \<in> set (sessions st). now - createdAt (snd e) < 2 ^ 53"
  proof -
    have same: "?P e \<longleftrightarrow> older_than now (of_int m) (snd e)" if "e \<in> set (sessions st)" for e
      using ageMinutes_whole_minutes[OF m, of now "snd e"] r that t by blast
    have "filter ?P (sessions st) = filter (\<lambda>e. older_than now (of_int m) (snd e)) (sessions st)"
      by (rule filter_cong[OF refl]) (rule same)
    moreover have "filter (\<lambda>e. \<not> ?P e) (sessions st)
                     = filter (\<lambda>e. \<not> older_than now (of_int m) (snd e)) (sessions st)"
      by (rule filter_cong[OF refl]) (simp add: same)
    ultimately show ?thesis using run by simp
  qed
  show ?thesis using run total activity exact by blast
qed

theorem cleanupExpiredSessions_correct_witness:
  "unique_keys sweep_state \<and>
   (0::int) \<le> 60 \<and>
   (6000000::int) - 600000 < 2 ^ 53 \<and> (6000000::int) - 5400000 < 2 ^ 53 \<and>
   fst (cleanupExpiredSessions 6000000 (Some (Finite 60)) sweep_state) = 1 \<and>
   map fst (sessions (snd (cleanupExpiredSessions 6000000 (Some (Finite 60)) sweep_state)))
     = [''new''] \<and>
   fst (cleanupExpiredSessions 6000000 None sweep_state) = 1 \<and>
   map fst (filter (\<lambda>e. older_than 6000000 60 (snd e)) (sessions sweep_state)) = [''old''] \<and>
   fst (cleanupExpiredSessions 6000000 (Some (Finite 60)) sweep_state)
     = length (filter (\<lambda>e. older_than 6000000 60 (snd e)) (sessions sweep_state))"
proof -
  have u: "unique_keys sweep_state"
    by (simp add: unique_keys_def sweep_state_def)
  have given: "Finite 60 = (case Some (Finite 60) of None \<Rightarrow> Finite 60 | Some t \<Rightarrow> t)"
    by simp
  have none: "Finite 60 = (case None of None \<Rightarrow> Finite 60 | Some t \<Rightarrow> t)"
    by simp
  note inst = cleanupExpiredSessions_correct[OF u given, where now = 6000000 and m = 60
      and parse = parse_fields and gw = example_gateway and sid = "''old''"
      and message = "Some ''hi''"]
  note default = cleanupExpiredSessions_correct[OF u none, where now = 6000000 and m = 60
      and parse = parse_fields and gw = example_gateway and sid = "''old''"
      and message = "Some ''hi''", THEN conjunct1]
  have a: "cleanupExpiredSessions 6000000 (Some (Finite 60)) sweep_state
             = (length (filter (\<lambda>e. num_gt (ageMinutes 6000000 (snd e)) (Finite 60))
                          (sessions sweep_state)),
                sweep_state\<lparr>sessions :=
                   filter (\<lambda>e. \<not> num_gt (ageMinutes 6000000 (snd e)) (Finite 60))
                     (sessions sweep_state)\<rparr>)"
    by (rule inst[THEN conjunct1])
  have b: "cleanupExpiredSessions 6000000 None sweep_state
             = (length (filter (\<lambda>e. num_gt (ageMinutes 6000000 (snd e)) (Finite 60))
                          (sessions sweep_state)),
                sweep_state\<lparr>sessions :=
                   filter (\<lambda>e. \<not> num_gt (ageMinutes 6000000 (snd e)) (Finite 60))
                     (sessions sweep_state)\<rparr>)"
    by (rule default)
  have range: "\<forall>e \<in> set (sessions sweep_state). 6000000 - createdAt (snd e) < 2 ^ 53"
    by (simp add: sweep_state_def)
  have prem: "(Finite 60 :: number) = Finite (of_int 60) \<and> (0::int) \<le> 60 \<and>
      (\<forall>e \<in> set (sessions sweep_state). 6000000 - createdAt (snd e) < 2 ^ 53)"
    using range by simp
  have "cleanupExpiredSessions 6000000 (Some (Finite 60)) sweep_state
          = (length (filter (\<lambda>e. older_than 6000000 (of_int 60) (snd e)) (sessions sweep_state)),
             sweep_state\<lparr>sessions :=
                filter (\<lambda>e. \<not> older_than 6000000 (of_int 60) (snd e))
                  (sessions sweep_state)\<rparr>)"
    by (rule inst[THEN conjunct2, THEN conjunct2, THEN conjunct2, THEN mp, OF prem])
  then have c: "fst (cleanupExpiredSessions 6000000 (Some (Finite 60)) sweep_state)
     = length (filter (\<lambda>e. older_than 6000000 60 (snd e)) (sessions sweep_state))"
    by simp
  have o: "map fst (filter (\<lambda>e. older_than 6000000 60 (snd e)) (sessions sweep_state))
             = [''old'']"
    by (simp add: sweep_state_def older_than_def)
  have "fst (cleanupExpiredSessions 6000000 (Some (Finite 60)) sweep_state) = 1"
    "map fst (sessions (snd (cleanupExpiredSessions 6000000 (Some (Finite 60)) sweep_state)))
     = [''new'']"
    "fst (cleanupExpiredSessions 6000000 None sweep_state) = 1"
    unfolding a b by (simp_all add: sweep_state_def age_examples)
  then show ?thesis using u c o by simp
qed

text \<open>
  C5. For an identifier the store does not hold (never created, or deleted),
  \<open>sendMessage\<close> throws "Session not found" and returns the state as it was: no turn is
  logged and no object is written.
\<close>

theorem sendMessage_unknown_session:
  "(\<not> hasSession st sid \<longrightarrow>
      sendMessage parse gw st sid message = (Inl (Error ''Session not found''), st)) \<and>
   sendMessage parse gw (snd (deleteSession st sid)) sid message
     = (Inl (Error ''Session not found''), snd (deleteSession st sid)) \<and>
   sendMessage parse gw new_SessionService sid message
     = (Inl (Error ''Session not found''), new_SessionService)"
  by (simp add: sendMessage_def hasSession_def map_get_None_iff[symmetric] deleteSession_def
      map_get_delete new_SessionService_def) (simp add: map_get_def)

theorem sendMessage_unknown_session_witness:
  "\<not> hasSession example_state ''nope'' \<and>
   sendMessage parse_fields example_gateway example_state ''nope'' (Some ''hi'')
     = (Inl (Error ''Session not found''), example_state)"
proof -
  have h: "\<not> hasSession example_state ''nope''"
    by (simp add: hasSession_def map_has_def example_state_def)
  with sendMessage_unknown_session[of example_state "''nope''" parse_fields example_gateway
      "Some ''hi''"]
  show ?thesis by simp
qed

text \<open>
  C6. Merging the same sequence-shaped extraction a second time leaves the session's
  accumulated form data as the first merge left it.
\<close>

theorem accumulator_idempotent:
  "heap (snd (accumulator (snd (accumulator st s (Structured m (FieldSeq fs)))) s
                 (Structured m' (FieldSeq fs)))) (accumulatedFormData s)
     = heap (snd (accumulator st s (Structured m (FieldSeq fs)))) (accumulatedFormData s) \<and>
   accumulate (accumulate acc fs) fs = accumulate acc fs"
  by (simp add: accumulator_def Let_def accumulate_idem)

theorem accumulator_idempotent_witness:
  "heap (snd (accumulator example_state example_session
                (Structured None (FieldSeq example_fields)))) 0
     = [''a'' \<mapsto> ''2'', ''b'' \<mapsto> ''3''] \<and>
   heap (snd (accumulator (snd (accumulator example_state example_session
                                  (Structured None (FieldSeq example_fields))))
                example_session (Structured None (FieldSeq example_fields)))) 0
     = [''a'' \<mapsto> ''2'', ''b'' \<mapsto> ''3'']"
proof -
  have once: "heap (snd (accumulator example_state example_session
                (Structured None (FieldSeq example_fields)))) 0
     = [''a'' \<mapsto> ''2'', ''b'' \<mapsto> ''3'']"
    by (simp add: accumulator_def Let_def ex_defs obj_set_def)
  have "accumulatedFormData example_session = 0" by (simp add: example_session_def)
  with once
    accumulator_idempotent[of example_state example_session None example_fields None Map.empty]
  show ?thesis by simp
qed

text \<open>
  C7. When the gateway's result for an existing session is a plain string,
  \<open>sendMessage\<close> resolves to that string and changes nothing in the store but the log of
  turns.
\<close>

theorem sendMessage_plain_string:
  assumes "map_get (sessions st) sid = Some s"
    and "ai_sendMessage parse gw (Some (chat s)) message (turns st) = (Inr (PlainText txt), hist)"
  shows "sendMessage parse gw st sid message = (Inr (Raw (PlainText txt)), st\<lparr>turns := hist\<rparr>) \<and>
         sessions (snd (sendMessage parse gw st sid message)) = sessions st \<and>
         heap (snd (sendMessage parse gw st sid message)) = heap st \<and>
         next_free (snd (sendMessage parse gw st sid message)) = next_free st"
  using assms by (simp add: sendMessage_def accumulator_def)

theorem sendMessage_plain_string_witness:
  "map_get (sessions example_state) ''s1'' = Some example_session \<and>
   sendMessage parse_text example_gateway example_state ''s1'' (Some ''hi'')
     = (Inr (Raw (PlainText ''hello'')), example_state\<lparr>turns := [(7, ''hi'')]\<rparr>)"
proof -
  have h1: "map_get (sessions example_state) ''s1'' = Some example_session"
    by (simp add: map_get_def example_state_def)
  have h2: "ai_sendMessage parse_text example_gateway (Some (chat example_session)) (Some ''hi'')
              (turns example_state) = (Inr (PlainText ''hello''), [(7, ''hi'')])"
    by (simp add: ai_sendMessage_def try_sendMessage_def example_session_def example_state_def example_gateway_def parse_text_def trim_hi Let_def)
  from sendMessage_plain_string[OF h1 h2] h1 show ?thesis by simp
qed




text \<open>
  C9, as the code has it. The claim names the error an empty message raises as "Chat
  instance and message are required"; that error is thrown inside the \<open>try\<close> block and
  replaced by the \<open>catch\<close> handler. And a message of two spaces passes the guard, is
  trimmed, and reaches the gateway as the empty string, after which the accumulator runs.
\<close>

theorem sendMessage_empty_message_counterexample:
  "fst (sendMessage parse_fields example_gateway example_state ''s1'' (Some ''''))
     \<noteq> Inl (Error ''Chat instance and message are required'') \<and>
   turns (snd (sendMessage parse_fields example_gateway example_state ''s1'' (Some ''  '')))
     = [(7, '''')] \<and>
   heap (snd (sendMessage parse_fields example_gateway example_state ''s1'' (Some ''  ''))) 0
     = [''a'' \<mapsto> ''2'', ''b'' \<mapsto> ''3'']"
proof -
  have "fst (sendMessage parse_fields example_gateway example_state ''s1'' (Some ''''))
     \<noteq> Inl (Error ''Chat instance and message are required'')"
    by (simp add: sendMessage_def ai_sendMessage_def try_sendMessage_def map_get_def
        example_state_def)
  moreover have "sendMessage parse_fields example_gateway example_state ''s1'' (Some ''  '')
      = (Inr (Accumulated (Some ''ok'') 1),
         example_state\<lparr>turns := [(7, '''')],
           heap := (\<lambda>a. Map.empty)(0 := [''a'' \<mapsto> ''2'', ''b'' \<mapsto> ''3''],
                                  1 := [''a'' \<mapsto> ''2'', ''b'' \<mapsto> ''3'']),
           next_free := 2\<rparr>)"
    using ai_fields_spaces
    by (simp add: sendMessage_def map_get_def example_state_def example_session_def
        accumulator_def Let_def example_fields_def obj_set_def)
  ultimately show ?thesis by simp
qed

text \<open>
  C9, amended. For an existing session and a message that is the empty string or missing,
  \<open>sendMessage\<close> throws before any turn reaches the gateway, and returns the state as it
  was: such a message is never forwarded (the log of turns is unchanged) and no object is
  written. The error that reaches the caller is "Failed to get AI response. Please try
  again.", what the handler makes of the internal "Chat instance and message are
  required".
\<close>

theorem sendMessage_empty_message:
  assumes "map_get (sessions st) sid = Some s"
    and "message = None \<or> message = Some []"
  shows "sendMessage parse gw st sid message
           = (Inl (Error ''Failed to get AI response. Please try again.''), st) \<and>
         turns (snd (sendMessage parse gw st sid message)) = turns st \<and>
         heap (snd (sendMessage parse gw st sid message)) = heap st \<and>
         try_sendMessage parse gw (Some (chat s)) message (turns st)
           = (Inl (Error ''Chat instance and message are required''), turns st)"
proof -
  have t: "try_sendMessage parse gw (Some (chat s)) message (turns st)
           = (Inl (Error ''Chat instance and message are required''), turns st)"
    using assms(2) by (auto simp: try_sendMessage_def)
  have "catch_handler (Error ''Chat instance and message are required'')
          = Error ''Failed to get AI response. Please try again.''"
    by simp
  with t assms(1) show ?thesis
    by (simp add: sendMessage_def ai_sendMessage_def)
qed

theorem sendMessage_empty_message_witness:
  "map_get (sessions example_state) ''s1'' = Some example_session \<and>
   sendMessage parse_fields example_gateway example_state ''s1'' (Some '''')
     = (Inl (Error ''Failed to get AI response. Please try again.''), example_state) \<and>
   sendMessage parse_fields example_gateway example_state ''s1'' None
     = (Inl (Error ''Failed to get AI response. Please try again.''), example_state) \<and>
   turns (snd (sendMessage parse_fields example_gateway example_state ''s1'' (Some '''')))
     = []"
proof -
  have h1: "map_get (sessions example_state) ''s1'' = Some example_session"
    by (simp add: map_get_def example_state_def)
  have t: "turns example_state = []" by (simp add: example_state_def)
  from sendMessage_empty_message[OF h1, of "Some ''''" parse_fields example_gateway]
    sendMessage_empty_message[OF h1, of None parse_fields example_gateway] h1 t
  show ?thesis by simp
qed

text \<open>
  C10. Store consistency (every record is stored under its own identifier, the count is
  the length of the identifier list, \<open>hasSession\<close> agrees with that list) holds for the
  new service and is kept by \<open>createSession\<close>, \<open>sendMessage\<close>, \<open>deleteSession\<close> and
  \<open>cleanupExpiredSessions\<close>.
\<close>

theorem store_consistent_preserved:
  assumes "store_consistent st"
  shows "store_consistent new_SessionService \<and>
         store_consistent (snd (createSession uuid newChat now sch st)) \<and>
         store_consistent (snd (sendMessage parse gw st sid message)) \<and>
         store_consistent (snd (deleteSession st sid)) \<and>
         store_consistent (snd (cleanupExpiredSessions now arg st)) \<and>
         (\<forall>e \<in> set (sessions st). id_session (snd e) = fst e) \<and>
         getSessionCount st = length (getAllSessionIds st) \<and>
         (\<forall>i. hasSession st i \<longleftrightarrow> i \<in> set (getAllSessionIds st))"
proof -
  have inv: "\<forall>e \<in> set (sessions st). id_session (snd e) = fst e"
    using assms by (simp add: store_consistent_iff)
  have "store_consistent new_SessionService"
    by (simp add: store_consistent_iff new_SessionService_def)
  moreover have "store_consistent (snd (createSession uuid newChat now sch st))"
    unfolding store_consistent_iff
    using inv createSession_sessions[of uuid newChat now sch st] by auto
  moreover have "store_consistent (snd (sendMessage parse gw st sid message))"
    unfolding store_consistent_iff using inv by (simp add: sendMessage_sessions)
  moreover have "store_consistent (snd (deleteSession st sid))"
    unfolding store_consistent_iff using inv by (simp add: deleteSession_def map_delete_def)
  moreover have "store_consistent (snd (cleanupExpiredSessions now arg st))"
    unfolding store_consistent_iff using inv cleanup_sessions[of now arg st] by blast
  ultimately show ?thesis using assms by (simp add: store_consistent_def)
qed

theorem store_consistent_preserved_witness:
  "store_consistent example_state \<and>
   store_consistent
     (snd (createSession ''s2'' 8 5 (JObj [(''n'', JStr ''string'')]) example_state)) \<and>
   getAllSessionIds
     (snd (createSession ''s2'' 8 5 (JObj [(''n'', JStr ''string'')]) example_state))
     = [''s1'', ''s2''] \<and>
   store_consistent (snd (deleteSession example_state ''s1'')) \<and>
   getSessionCount (snd (deleteSession example_state ''s1'')) = 0"
proof -
  have h: "store_consistent example_state"
    by (simp add: store_consistent_iff example_state_def example_session_def)
  have ids: "getAllSessionIds
     (snd (createSession ''s2'' 8 5 (JObj [(''n'', JStr ''string'')]) example_state))
     = [''s1'', ''s2'']"
    by (simp add: getAllSessionIds_def createSession_def validateSchema_def validTypes_def
        toLowerChar_def kelvin_sign_def dotted_capital_I_def Let_def example_state_def)
  have cnt: "getSessionCount (snd (deleteSession example_state ''s1'')) = 0"
    by (simp add: getSessionCount_def deleteSession_def map_delete_def example_state_def)
  from store_consistent_preserved[OF h, where uuid = "''s2''" and newChat = 8 and now = 5
      and sch = "JObj [(''n'', JStr ''string'')]" and sid = "''s1''"] h ids cnt
  show ?thesis by simp
qed

end
